theory Spec2Isabelle
  imports Main
begin

section \<open>Time parser (utils.py)\<close>

text \<open>
  Python strings are sequences of code points. A \<^typ>\<open>char\<close> is read here as one code
  point below 256 (Latin-1). On that range the regular expression class \<open>\d\<close> is exactly
  the ten ASCII digits, and \<open>str.lower\<close> maps \<open>A..Z\<close> and the Latin-1 capitals
  \<open>0xC0..0xDE\<close> (without the multiplication sign \<open>0xD7\<close>) to the code point 32 above.
\<close>

definition is_digit :: "char \<Rightarrow> bool" where
  "is_digit c \<longleftrightarrow> 48 \<le> (of_char c :: nat) \<and> (of_char c :: nat) \<le> 57"

definition digit_val :: "char \<Rightarrow> int" where
  "digit_val c = int (of_char c) - 48"

definition lower_char :: "char \<Rightarrow> char" where
  "lower_char c =
     (let n = (of_char c :: nat)
      in if (65 \<le> n \<and> n \<le> 90) \<or> (192 \<le> n \<and> n \<le> 222 \<and> n \<noteq> 215)
         then char_of (n + 32) else c)"

definition lower :: "string \<Rightarrow> string" where
  "lower s = map lower_char s"

text \<open>\<open>int(value)\<close> on a non-empty run of decimal digits.\<close>

definition int_of_digits :: "string \<Rightarrow> int" where
  "int_of_digits ds = foldl (\<lambda>acc c. 10 * acc + digit_val c) 0 ds"

text \<open>The dictionary \<open>units\<close> of \<open>parse_time\<close>.\<close>

definition units :: "char \<Rightarrow> int option" where
  "units c =
     (if c = CHR ''s'' then Some 1
      else if c = CHR ''m'' then Some 60
      else if c = CHR ''h'' then Some 3600
      else if c = CHR ''d'' then Some 86400
      else None)"

definition unit_class :: "char \<Rightarrow> bool" where
  "unit_class c \<longleftrightarrow> c = CHR ''s'' \<or> c = CHR ''m'' \<or> c = CHR ''h'' \<or> c = CHR ''d''"

text \<open>
  \<open>re.match(r'(\d+)([smhd])', s)\<close> anchors at the start of \<open>s\<close> only. The group
  \<open>\d+\<close> is greedy: it first takes the whole leading run of digits and then gives
  digits back one at a time while the character class after it fails.
  \<open>backtrack s k\<close> tries the digit groups of length \<open>k\<close>, \<open>k - 1\<close>, ..., \<open>1\<close> in that
  order and returns the two groups of the first success.
\<close>

fun backtrack :: "string \<Rightarrow> nat \<Rightarrow> (string \<times> char) option" where
  "backtrack s 0 = None"
| "backtrack s (Suc k) =
     (if Suc k < length s \<and> unit_class (s ! Suc k) then Some (take (Suc k) s, s ! Suc k)
      else backtrack s k)"

definition re_match :: "string \<Rightarrow> (string \<times> char) option" where
  "re_match s = backtrack s (length (takeWhile is_digit s))"

definition parse_time :: "string \<Rightarrow> int option" where
  "parse_time time_str =
     (if time_str = [] then None
      else case re_match (lower time_str) of
             Some (v, unit) \<Rightarrow>
               Some (int_of_digits v * (case units unit of Some m \<Rightarrow> m | None \<Rightarrow> 60))
           | None \<Rightarrow> None)"

text \<open>The multiplier table as the specification words it.\<close>

definition multiplier :: "char \<Rightarrow> int" where
  "multiplier u =
     (if u = CHR ''s'' then 1 else if u = CHR ''m'' then 60
      else if u = CHR ''h'' then 3600 else 86400)"


section \<open>Exceptions and the clock\<close>

datatype error = NameError | IntegrityError | OverflowError | PlatformError

text \<open>
  A \<open>datetime\<close> has microsecond resolution and ranges over the years 1 to 9999. A
  timestamp is the number of microseconds since \<open>datetime.min\<close>; \<open>datetime.max\<close> is the
  last microsecond of day 3652059. The ISO text that SQLite stores for a \<open>datetime\<close> has
  fixed-width fields, so comparing two stored texts compares the two instants. The
  floating-point seconds of \<open>datetime.timestamp()\<close> are read as the same exact instant.
  Every clock reading of one handler invocation is taken to return the same instant.
\<close>

type_synonym timestamp = int

definition datetime_max :: timestamp where
  "datetime_max = 3652059 * 86400000000 - 1"

text \<open>
  \<open>datetime.now() + timedelta(seconds=secs)\<close>: both the construction of an oversized
  \<open>timedelta\<close> and a sum outside the \<open>datetime\<close> range raise \<open>OverflowError\<close>.
\<close>

definition add_seconds :: "timestamp \<Rightarrow> int \<Rightarrow> error + timestamp" where
  "add_seconds now secs =
     (let t = now + secs * 1000000
      in if t < 0 \<or> datetime_max < t then Inl OverflowError else Inr t)"

section \<open>Moderation store (database.py)\<close>

text \<open>
  One row of \<open>chat_settings\<close>, with the columns that the modelled operations read. The
  columns \<open>welcome_message\<close>, \<open>rules\<close>, \<open>banned_links\<close>, \<open>slowmode_enabled\<close> and
  \<open>slowmode_seconds\<close> are never read by them. \<open>bad_words\<close> is the decoded JSON list.
\<close>

record settings =
  warn_limit :: int
  antiflood_enabled :: bool
  antiflood_count :: int
  antiflood_seconds :: int
  bad_words :: "string list"

text \<open>
  The reason of a warning: the joined arguments of \<open>/warn\<close>, its fixed default text, or
  the word filter's text built from the matched word.
\<close>

datatype reason = Reason string | No_reason | Profanity string

record warning =
  w_id :: nat
  w_chat :: int
  w_user :: int
  warned_by :: int
  w_reason :: reason
  created_at :: timestamp

record user_stat =
  messages_count :: int
  first_seen :: timestamp
  last_seen :: timestamp

text \<open>
  The four tables. \<open>warnings_seq\<close> is the counter that \<open>AUTOINCREMENT\<close> keeps in
  \<open>sqlite_sequence\<close>; \<open>muted_users\<close> and \<open>user_stats\<close> have the primary key
  \<open>(chat_id, user_id)\<close>, \<open>chat_settings\<close> has the primary key \<open>chat_id\<close>.
\<close>

record database =
  chat_settings :: "int \<rightharpoonup> settings"
  warnings :: "warning list"
  warnings_seq :: nat
  muted_users :: "int \<times> int \<rightharpoonup> timestamp"
  user_stats :: "int \<times> int \<rightharpoonup> user_stat"

text \<open>The database right after \<open>create_tables\<close> on a new file.\<close>

definition empty_db :: database where
  "empty_db = \<lparr>chat_settings = Map.empty, warnings = [], warnings_seq = 0,
               muted_users = Map.empty, user_stats = Map.empty\<rparr>"

text \<open>
  The constraints of the \<open>warnings\<close> table: \<open>id\<close> is its primary key and
  \<open>(chat_id, user_id, created_at)\<close> is declared \<open>UNIQUE\<close>.
\<close>

definition warnings_ok :: "database \<Rightarrow> bool" where
  "warnings_ok d \<longleftrightarrow>
     distinct (map w_id (warnings d)) \<and>
     distinct (map (\<lambda>r. (w_chat r, w_user r, created_at r)) (warnings d))"

text \<open>
  \<open>get_chat_settings\<close> returns the stored row when there is one. When there is none it
  builds the parameters of its \<open>INSERT\<close> from the names \<open>DEFAULT_WELCOME_MESSAGE\<close> and
  \<open>DEFAULT_RULES\<close>. The module imports only \<open>DATABASE_PATH\<close> from \<open>config\<close>, so
  evaluating the parameters raises \<open>NameError\<close> before the statement runs, and the table
  is left as it was.
\<close>

definition get_chat_settings :: "database \<Rightarrow> int \<Rightarrow> error + settings" where
  "get_chat_settings d c =
     (case chat_settings d c of Some row \<Rightarrow> Inr row | None \<Rightarrow> Inl NameError)"

definition get_bad_words :: "database \<Rightarrow> int \<Rightarrow> string list" where
  "get_bad_words d c = (case chat_settings d c of Some row \<Rightarrow> bad_words row | None \<Rightarrow> [])"

definition of_user :: "int \<Rightarrow> int \<Rightarrow> warning \<Rightarrow> bool" where
  "of_user c u r \<longleftrightarrow> w_chat r = c \<and> w_user r = u"

definition get_warnings_count :: "database \<Rightarrow> int \<Rightarrow> int \<Rightarrow> int" where
  "get_warnings_count d c u = int (length (filter (of_user c u) (warnings d)))"

text \<open>
  \<open>AUTOINCREMENT\<close> gives a new row an id one above the largest id the table ever held.
\<close>

definition next_id :: "database \<Rightarrow> nat" where
  "next_id d = Suc (foldr max (map w_id (warnings d)) (warnings_seq d))"

definition add_warning ::
  "database \<Rightarrow> int \<Rightarrow> int \<Rightarrow> int \<Rightarrow> reason \<Rightarrow> timestamp \<Rightarrow> error + database \<times> int" where
  "add_warning d c u by_user why now =
     (if \<exists>r \<in> set (warnings d). of_user c u r \<and> created_at r = now
      then Inl IntegrityError
      else let row = \<lparr>w_id = next_id d, w_chat = c, w_user = u, warned_by = by_user,
                       w_reason = why, created_at = now\<rparr>;
               d' = d\<lparr>warnings := warnings d @ [row], warnings_seq := next_id d\<rparr>
           in Inr (d', get_warnings_count d' c u))"

text \<open>
  The subquery of \<open>remove_warning\<close>: the rows of the user ordered by \<open>created_at\<close>
  descending, limited to one. Among rows of equal \<open>created_at\<close>, which the \<open>UNIQUE\<close>
  constraint excludes, the first in table order is kept.
\<close>

definition newest :: "warning list \<Rightarrow> warning option" where
  "newest rows =
     (case rows of [] \<Rightarrow> None
      | r # rs \<Rightarrow> Some (foldl (\<lambda>best x. if created_at best < created_at x then x else best) r rs))"

definition remove_warning :: "database \<Rightarrow> int \<Rightarrow> int \<Rightarrow> database \<times> int" where
  "remove_warning d c u =
     (let d' = (case newest (filter (of_user c u) (warnings d)) of
                  None \<Rightarrow> d
                | Some r \<Rightarrow> d\<lparr>warnings := filter (\<lambda>x. w_id x \<noteq> w_id r) (warnings d)\<rparr>)
      in (d', get_warnings_count d' c u))"

definition clear_warnings :: "database \<Rightarrow> int \<Rightarrow> int \<Rightarrow> database" where
  "clear_warnings d c u = d\<lparr>warnings := filter (\<lambda>r. \<not> of_user c u r) (warnings d)\<rparr>"

definition add_mute ::
  "database \<Rightarrow> int \<Rightarrow> int \<Rightarrow> int \<Rightarrow> timestamp \<Rightarrow> error + database \<times> timestamp" where
  "add_mute d c u duration_seconds now =
     (case add_seconds now duration_seconds of
        Inl e \<Rightarrow> Inl e
      | Inr mute_until \<Rightarrow>
          Inr (d\<lparr>muted_users := (muted_users d)((c, u) \<mapsto> mute_until)\<rparr>, mute_until))"

definition remove_mute :: "database \<Rightarrow> int \<Rightarrow> int \<Rightarrow> database" where
  "remove_mute d c u = d\<lparr>muted_users := (muted_users d)((c, u) := None)\<rparr>"

definition is_muted :: "database \<Rightarrow> int \<Rightarrow> int \<Rightarrow> timestamp \<Rightarrow> database \<times> bool" where
  "is_muted d c u now =
     (case muted_users d (c, u) of
        None \<Rightarrow> (d, False)
      | Some mute_until \<Rightarrow>
          if now < mute_until then (d, True) else (remove_mute d c u, False))"

text \<open>
  \<open>update_user_stats\<close> also takes the user name and first name; its statement does not
  use them.
\<close>

definition update_user_stats :: "database \<Rightarrow> int \<Rightarrow> int \<Rightarrow> timestamp \<Rightarrow> database" where
  "update_user_stats d c u now =
     d\<lparr>user_stats := (user_stats d)((c, u) \<mapsto>
         \<lparr>messages_count = (case user_stats d (c, u) of
                               Some st \<Rightarrow> messages_count st + 1 | None \<Rightarrow> 1),
          first_seen = (case user_stats d (c, u) of
                          Some st \<Rightarrow> first_seen st | None \<Rightarrow> now),
          last_seen = now\<rparr>)\<rparr>"

text \<open>A run of \<open>update_user_stats\<close> calls for one user, one clock reading per call.\<close>

definition update_user_stats_seq ::
  "database \<Rightarrow> int \<Rightarrow> int \<Rightarrow> timestamp list \<Rightarrow> database" where
  "update_user_stats_seq d c u ts = foldl (\<lambda>d' t. update_user_stats d' c u t) d ts"


section \<open>Platform calls and inbound updates (bot.py)\<close>

text \<open>
  The permission sets that the handlers send: \<open>create_mute_permissions()\<close>, and
  \<open>ChatPermissions(can_send_messages=False)\<close>.
\<close>

datatype permissions = Mute_permissions | No_send_messages

text \<open>The messages the handlers send, by the values their texts are built from.\<close>

datatype notice =
    Admin_only
  | Need_reply
  | Banned_notice int int reason
  | Warned_notice int int reason
  | Ban_error
  | Muted_notice int
  | Mute_error
  | Unwarned_notice int
  | Flood_notice
  | Bad_word_notice int int
  | Limit_ban_notice

datatype call =
    Reply_text notice
  | Send_message notice
  | Delete_message
  | Ban_member int
  | Restrict_member int permissions timestamp

text \<open>
  One inbound update, with what the handlers read from it and from the clocks:
  the chat, the sender, the answer of \<open>is_admin\<close> for the sender, the author of the
  message replied to, the command arguments, the message text (absent when the update
  has no message or the message has no text), the bot's own id, \<open>datetime.now()\<close>, and
  the timer of the flood cache (\<open>time.monotonic()\<close>, in microseconds).
\<close>

record update =
  u_chat :: int
  u_user :: int
  u_is_admin :: bool
  u_reply_to :: "int option"
  u_args :: "string list"
  u_text :: "string option"
  u_bot :: int
  u_now :: timestamp
  u_mono :: int

text \<open>
  The process state: the store and \<open>flood_cache\<close>, a \<open>TTLCache(maxsize=10000, ttl=60)\<close>.
  A cache entry holds its expiry on the cache's timer and the list of message times.
  The key \<open>f"{chat.id}_{user.id}"\<close> is read as the pair of ids. Eviction at 10000 keys
  is not modelled.
\<close>

record bot =
  db :: database
  flood_cache :: "int \<times> int \<rightharpoonup> int \<times> timestamp list"

text \<open>
  What one handler invocation leaves: the state, the platform calls it issued in order
  (the rejected one included), and the exception that left the handler, if any.
\<close>

record outcome =
  state :: bot
  calls :: "call list"
  raised :: "error option"

definition finish :: "bot \<Rightarrow> call list \<Rightarrow> outcome" where
  "finish s cs = \<lparr>state = s, calls = cs, raised = None\<rparr>"

definition crash :: "bot \<Rightarrow> call list \<Rightarrow> error \<Rightarrow> outcome" where
  "crash s cs e = \<lparr>state = s, calls = cs, raised = Some e\<rparr>"

text \<open>
  A platform call that is the last statement of a handler and is not inside a \<open>try\<close>:
  the platform's rejection leaves the handler as an exception. \<open>ok c\<close> tells whether
  the platform accepts the call \<open>c\<close>.
\<close>

definition last_call :: "(call \<Rightarrow> bool) \<Rightarrow> bot \<Rightarrow> call list \<Rightarrow> call \<Rightarrow> outcome" where
  "last_call ok s cs c =
     \<lparr>state = s, calls = cs @ [c], raised = (if ok c then None else Some PlatformError)\<rparr>"

text \<open>\<open>' '.join(context.args)\<close>\<close>

fun join :: "string list \<Rightarrow> string" where
  "join [] = []"
| "join [a] = a"
| "join (a # b # bs) = a @ CHR '' '' # join (b # bs)"

definition warn_command :: "(call \<Rightarrow> bool) \<Rightarrow> update \<Rightarrow> bot \<Rightarrow> outcome" where
  "warn_command ok upd s =
     (if \<not> u_is_admin upd then last_call ok s [] (Reply_text Admin_only)
      else case u_reply_to upd of
        None \<Rightarrow> last_call ok s [] (Reply_text Need_reply)
      | Some user_to_warn \<Rightarrow>
          let why = (if u_args upd = [] then No_reason else Reason (join (u_args upd)))
          in case add_warning (db s) (u_chat upd) user_to_warn (u_user upd) why (u_now upd) of
               Inl e \<Rightarrow> crash s [] e
             | Inr (d1, warn_count) \<Rightarrow>
                 (case get_chat_settings d1 (u_chat upd) of
                    Inl e \<Rightarrow> crash (s\<lparr>db := d1\<rparr>) [] e
                  | Inr row \<Rightarrow>
                      if warn_limit row \<le> warn_count then
                        (if ok (Ban_member user_to_warn) then
                           let d2 = clear_warnings d1 (u_chat upd) user_to_warn;
                               banned = Reply_text (Banned_notice warn_count (warn_limit row) why)
                           in if ok banned
                              then finish (s\<lparr>db := d2\<rparr>) [Ban_member user_to_warn, banned]
                              else last_call ok (s\<lparr>db := d2\<rparr>)
                                     [Ban_member user_to_warn, banned] (Reply_text Ban_error)
                         else last_call ok (s\<lparr>db := d1\<rparr>)
                                [Ban_member user_to_warn] (Reply_text Ban_error))
                      else last_call ok (s\<lparr>db := d1\<rparr>) []
                             (Reply_text (Warned_notice warn_count (warn_limit row) why))))"

definition unwarn_command :: "(call \<Rightarrow> bool) \<Rightarrow> update \<Rightarrow> bot \<Rightarrow> outcome" where
  "unwarn_command ok upd s =
     (if \<not> u_is_admin upd then last_call ok s [] (Reply_text Admin_only)
      else case u_reply_to upd of
        None \<Rightarrow> last_call ok s [] (Reply_text Need_reply)
      | Some user_to_unwarn \<Rightarrow>
          (case remove_warning (db s) (u_chat upd) user_to_unwarn of
             (d1, warn_count) \<Rightarrow>
               last_call ok (s\<lparr>db := d1\<rparr>) [] (Reply_text (Unwarned_notice warn_count))))"

text \<open>
  The duration that \<open>mute_command\<close> settles on: the parsed first argument, replaced by
  3600 when the test \<open>not duration\<close> holds, which it does for \<open>None\<close> and for \<open>0\<close>.
\<close>

definition mute_duration :: "string list \<Rightarrow> int" where
  "mute_duration as =
     (case (case as of [] \<Rightarrow> None | a # _ \<Rightarrow> parse_time a) of
        None \<Rightarrow> 3600
      | Some n \<Rightarrow> if n = 0 then 3600 else n)"

definition mute_command :: "(call \<Rightarrow> bool) \<Rightarrow> update \<Rightarrow> bot \<Rightarrow> outcome" where
  "mute_command ok upd s =
     (if \<not> u_is_admin upd then last_call ok s [] (Reply_text Admin_only)
      else case u_reply_to upd of
        None \<Rightarrow> last_call ok s [] (Reply_text Need_reply)
      | Some user_to_mute \<Rightarrow>
          let duration = mute_duration (u_args upd)
          in case add_seconds (u_now upd) duration of
               Inl e \<Rightarrow> crash s [] e
             | Inr mute_until \<Rightarrow>
                 let restrict = Restrict_member user_to_mute Mute_permissions mute_until
                 in if ok restrict then
                      (case add_mute (db s) (u_chat upd) user_to_mute duration (u_now upd) of
                         Inl e \<Rightarrow> last_call ok s [restrict] (Reply_text Mute_error)
                       | Inr (d1, _) \<Rightarrow>
                           let muted = Reply_text (Muted_notice duration)
                           in if ok muted then finish (s\<lparr>db := d1\<rparr>) [restrict, muted]
                              else last_call ok (s\<lparr>db := d1\<rparr>) [restrict, muted]
                                     (Reply_text Mute_error))
                    else last_call ok s [restrict] (Reply_text Mute_error))"

text \<open>\<open>word in text\<close> on strings: \<open>word\<close> occurs in \<open>text\<close> as a contiguous run.\<close>

fun starts_with :: "string \<Rightarrow> string \<Rightarrow> bool" where
  "starts_with [] t = True"
| "starts_with (x # xs) [] = False"
| "starts_with (x # xs) (y # ys) = (x = y \<and> starts_with xs ys)"

fun contains :: "string \<Rightarrow> string \<Rightarrow> bool" where
  "contains w [] = (w = [])"
| "contains w (y # ys) = (starts_with w (y # ys) \<or> contains w ys)"

text \<open>
  The flood branch of \<open>handle_messages\<close>: one \<open>try\<close> whose \<open>except\<close> swallows everything,
  followed by \<open>return\<close>.
\<close>

definition flood_action :: "(call \<Rightarrow> bool) \<Rightarrow> update \<Rightarrow> bot \<Rightarrow> outcome" where
  "flood_action ok upd s =
     (if \<not> ok Delete_message then finish s [Delete_message]
      else case add_seconds (u_now upd) 300 of
        Inl e \<Rightarrow> finish s [Delete_message]
      | Inr mute_until \<Rightarrow>
          let restrict = Restrict_member (u_user upd) No_send_messages mute_until
          in if \<not> ok restrict then finish s [Delete_message, restrict]
             else case add_mute (db s) (u_chat upd) (u_user upd) 300 (u_now upd) of
               Inl e \<Rightarrow> finish s [Delete_message, restrict]
             | Inr (d1, _) \<Rightarrow>
                 finish (s\<lparr>db := d1\<rparr>) [Delete_message, restrict, Send_message Flood_notice])"

text \<open>
  The word filter of \<open>handle_messages\<close>: the first banned word, in list order, whose
  lower-cased form occurs in the lower-cased text; then one \<open>try\<close> whose \<open>except\<close>
  swallows everything, followed by \<open>return\<close>.
\<close>

definition word_filter ::
  "(call \<Rightarrow> bool) \<Rightarrow> update \<Rightarrow> string \<Rightarrow> settings \<Rightarrow> bot \<Rightarrow> outcome" where
  "word_filter ok upd txt row s =
     (case find (\<lambda>word. contains (lower word) (lower txt))
             (get_bad_words (db s) (u_chat upd)) of
        None \<Rightarrow> finish s []
      | Some word \<Rightarrow>
          if \<not> ok Delete_message then finish s [Delete_message]
          else case add_warning (db s) (u_chat upd) (u_user upd) (u_bot upd)
                      (Profanity word) (u_now upd) of
            Inl e \<Rightarrow> finish s [Delete_message]
          | Inr (d1, warn_count) \<Rightarrow>
              let s1 = s\<lparr>db := d1\<rparr>;
                  warned = Send_message (Bad_word_notice warn_count (warn_limit row))
              in if \<not> ok warned then finish s1 [Delete_message, warned]
                 else if warn_limit row \<le> warn_count then
                   (if ok (Ban_member (u_user upd))
                    then finish s1 [Delete_message, warned, Ban_member (u_user upd),
                                    Send_message Limit_ban_notice]
                    else finish s1 [Delete_message, warned, Ban_member (u_user upd)])
                 else finish s1 [Delete_message, warned])"

text \<open>
  The window of the sender after this message: the live cache entry (none when the key
  is absent or its time to live has run out) with the current time appended, without
  the times older than \<open>antiflood_seconds\<close>.
\<close>

definition flood_window :: "update \<Rightarrow> settings \<Rightarrow> bot \<Rightarrow> timestamp list" where
  "flood_window upd row s =
     (let live = (case flood_cache s (u_chat upd, u_user upd) of
                    None \<Rightarrow> []
                  | Some (expires, ts) \<Rightarrow> if u_mono upd < expires then ts else [])
      in filter (\<lambda>t. u_now upd - t \<le> antiflood_seconds row * 1000000) (live @ [u_now upd]))"

definition handle_messages :: "(call \<Rightarrow> bool) \<Rightarrow> update \<Rightarrow> bot \<Rightarrow> outcome" where
  "handle_messages ok upd s =
     (case u_text upd of
        None \<Rightarrow> finish s []
      | Some txt \<Rightarrow>
          if txt = [] then finish s []
          else case is_muted (db s) (u_chat upd) (u_user upd) (u_now upd) of
            (d1, True) \<Rightarrow> finish (s\<lparr>db := d1\<rparr>) [Delete_message]
          | (d1, False) \<Rightarrow>
              let s2 = s\<lparr>db := update_user_stats d1 (u_chat upd) (u_user upd) (u_now upd)\<rparr>
              in case get_chat_settings (db s2) (u_chat upd) of
                   Inl e \<Rightarrow> crash s2 [] e
                 | Inr row \<Rightarrow>
                     if antiflood_enabled row then
                       let window = flood_window upd row s2;
                           s3 = s2\<lparr>flood_cache := (flood_cache s2)
                                  ((u_chat upd, u_user upd) \<mapsto> (u_mono upd + 60000000, window))\<rparr>
                       in if antiflood_count row < int (length window)
                          then flood_action ok upd s3
                          else word_filter ok upd txt row s3
                     else word_filter ok upd txt row s2)"

text \<open>The state after handling a list of inbound messages one after the other.\<close>

definition handle_all :: "(call \<Rightarrow> bool) \<Rightarrow> update list \<Rightarrow> bot \<Rightarrow> bot" where
  "handle_all ok upds s = foldl (\<lambda>s' upd. state (handle_messages ok upd s')) s upds"

text \<open>The state after a list of \<open>/warn\<close> commands handled one after the other.\<close>

definition warn_all :: "(call \<Rightarrow> bool) \<Rightarrow> update list \<Rightarrow> bot \<Rightarrow> bot" where
  "warn_all ok upds s = foldl (\<lambda>s' upd. state (warn_command ok upd s')) s upds"

section \<open>Bursts of messages\<close>

text \<open>
  All updates of a list are text messages of user \<open>u\<close> in chat \<open>c\<close>.
\<close>

definition same_sender :: "int \<Rightarrow> int \<Rightarrow> update list \<Rightarrow> bool" where
  "same_sender c u upds \<longleftrightarrow>
     (\<forall>e \<in> set upds. u_chat e = c \<and> u_user e = u \<and> u_text e \<noteq> None \<and> u_text e \<noteq> Some [])"

text \<open>
  All updates of a list lie within \<open>secs\<close> seconds of one another on the wall clock,
  and within the cache's time to live of 60 seconds on the cache's timer.
\<close>

definition within_seconds :: "int \<Rightarrow> update list \<Rightarrow> bool" where
  "within_seconds secs upds \<longleftrightarrow>
     (\<forall>e \<in> set upds. \<forall>e' \<in> set upds.
        u_now e - u_now e' \<le> secs * 1000000 \<and> u_mono e < u_mono e' + 60000000)"

section \<open>Example inputs\<close>

text \<open>
  A settings row with the defaults of the schema (warn limit 3, antiflood enabled, more
  than 5 messages in 10 seconds) and the given list of banned words.
\<close>

definition default_row :: "string list \<Rightarrow> settings" where
  "default_row ws = \<lparr>warn_limit = 3, antiflood_enabled = True, antiflood_count = 5,
                     antiflood_seconds = 10, bad_words = ws\<rparr>"

text \<open>A new process on a new database file, and one on a database that holds a
  settings row for chat 1.\<close>

definition fresh_bot :: bot where
  "fresh_bot = \<lparr>db = empty_db, flood_cache = Map.empty\<rparr>"

definition configured_bot :: "string list \<Rightarrow> bot" where
  "configured_bot ws =
     \<lparr>db = empty_db\<lparr>chat_settings := [1 \<mapsto> default_row ws]\<rparr>, flood_cache = Map.empty\<rparr>"

text \<open>A platform that accepts every call, and one that rejects exactly the call \<open>c\<close>.\<close>

definition accept_all :: "call \<Rightarrow> bool" where
  "accept_all c = True"

definition reject :: "call \<Rightarrow> call \<Rightarrow> bool" where
  "reject c c' \<longleftrightarrow> c' \<noteq> c"

text \<open>A text message of user \<open>u\<close> in chat 1 at second \<open>t\<close> of both clocks, and a
  command of the administrator 9 in chat 1, sent as a reply to a message of user \<open>u\<close>.\<close>

definition message :: "int \<Rightarrow> string \<Rightarrow> int \<Rightarrow> update" where
  "message u txt t =
     \<lparr>u_chat = 1, u_user = u, u_is_admin = False, u_reply_to = None, u_args = [],
      u_text = Some txt, u_bot = 0, u_now = t * 1000000, u_mono = t * 1000000\<rparr>"

definition command :: "int \<Rightarrow> string list \<Rightarrow> int \<Rightarrow> update" where
  "command u as t =
     \<lparr>u_chat = 1, u_user = 9, u_is_admin = True, u_reply_to = Some u, u_args = as,
      u_text = Some ''/'', u_bot = 0, u_now = t * 1000000, u_mono = t * 1000000\<rparr>"



text \<open>A store in which user 2 of chat 1 is muted until the instant 100.\<close>

definition one_mute :: database where
  "one_mute = empty_db\<lparr>muted_users := [(1, 2) \<mapsto> 100]\<rparr>"

section \<open>States the program can reach\<close>

text \<open>
  The states that a process started on a new database reaches by handling updates
  with the four handlers, whatever the platform answers.
\<close>

inductive reachable :: "bot \<Rightarrow> bool" where
  start: "reachable fresh_bot"
| warn: "reachable s \<Longrightarrow> reachable (state (warn_command ok upd s))"
| unwarn: "reachable s \<Longrightarrow> reachable (state (unwarn_command ok upd s))"
| mute: "reachable s \<Longrightarrow> reachable (state (mute_command ok upd s))"
| text_message: "reachable s \<Longrightarrow> reachable (state (handle_messages ok upd s))"

section \<open>The time parser: proofs\<close>

lemma is_digit_lower: "is_digit c \<Longrightarrow> lower_char c = c"
  by (auto simp: is_digit_def lower_char_def Let_def)

lemma digit_not_unit: "is_digit c \<Longrightarrow> \<not> unit_class c"
  by (auto simp: is_digit_def unit_class_def)

lemma backtrack_none:
  "(\<And>j. 0 < j \<Longrightarrow> j \<le> k \<Longrightarrow> \<not> (j < length s \<and> unit_class (s ! j))) \<Longrightarrow> backtrack s k = None"
  by (induction k) auto

lemma backtrack_hit:
  "0 < k \<Longrightarrow> k < length s \<Longrightarrow> unit_class (s ! k) \<Longrightarrow> backtrack s k = Some (take k s, s ! k)"
  by (cases k) auto

lemma re_match_greedy:
  "re_match s =
     (let ds = takeWhile is_digit s; r = dropWhile is_digit s
      in if ds \<noteq> [] \<and> r \<noteq> [] \<and> unit_class (hd r) then Some (ds, hd r) else None)"
proof -
  define n where "n = length (takeWhile is_digit s)"
  have tk: "take n s = takeWhile is_digit s"
    unfolding n_def by (rule takeWhile_eq_take [symmetric])
  have dr: "dropWhile is_digit s = drop n s"
    unfolding n_def by (rule dropWhile_eq_drop)
  have nle: "n \<le> length s"
    by (simp add: n_def length_takeWhile_le)
  have hd_r: "n < length s \<Longrightarrow> hd (dropWhile is_digit s) = s ! n"
    by (simp add: dr hd_drop_conv_nth)
  have r_ne: "dropWhile is_digit s \<noteq> [] \<longleftrightarrow> n < length s"
    using nle by (auto simp: dr)
  have ds_ne: "takeWhile is_digit s \<noteq> [] \<longleftrightarrow> 0 < n"
    by (simp add: n_def)
  have dig: "\<And>j. j < n \<Longrightarrow> is_digit (s ! j)"
    unfolding n_def by (metis nth_mem set_takeWhileD takeWhile_nth)
  have rm: "re_match s = backtrack s n"
    by (simp add: re_match_def n_def)
  show ?thesis
  proof (cases "0 < n \<and> n < length s \<and> unit_class (s ! n)")
    case True
    have a: "takeWhile is_digit s \<noteq> []" using ds_ne True by blast
    have b: "dropWhile is_digit s \<noteq> []" using r_ne True by blast
    have c: "unit_class (hd (dropWhile is_digit s))" using hd_r True by simp
    have "backtrack s n = Some (take n s, s ! n)"
      using True by (simp add: backtrack_hit)
    then have "re_match s = Some (takeWhile is_digit s, hd (dropWhile is_digit s))"
      using rm tk hd_r True by simp
    then show ?thesis
      unfolding Let_def using a b c by (simp only: if_True simp_thms)
  next
    case False
    have "backtrack s n = None"
    proof (rule backtrack_none)
      fix j assume j: "0 < j" "j \<le> n"
      show "\<not> (j < length s \<and> unit_class (s ! j))"
      proof (cases "j = n")
        case True
        with False j show ?thesis by auto
      next
        case False
        with j have "j < n" by simp
        then show ?thesis using dig digit_not_unit by blast
      qed
    qed
    then have none: "re_match s = None" using rm by simp
    have "\<not> (takeWhile is_digit s \<noteq> [] \<and> dropWhile is_digit s \<noteq> []
            \<and> unit_class (hd (dropWhile is_digit s)))"
      using False ds_ne r_ne hd_r by metis
    then show ?thesis
      unfolding Let_def using none by (simp only: if_False)
  qed
qed

lemma lower_digits: "list_all is_digit ds \<Longrightarrow> lower ds = ds"
  by (induction ds) (auto simp: lower_def is_digit_lower)

lemma takeWhile_digits:
  "list_all is_digit ds \<Longrightarrow> \<not> is_digit c \<Longrightarrow> takeWhile is_digit (ds @ c # r) = ds"
  by (induction ds) auto

lemma dropWhile_digits:
  "list_all is_digit ds \<Longrightarrow> \<not> is_digit c \<Longrightarrow> dropWhile is_digit (ds @ c # r) = c # r"
  by (induction ds) auto

lemma units_multiplier: "unit_class c \<Longrightarrow> units c = Some (multiplier c)"
  by (auto simp: unit_class_def units_def multiplier_def)

lemma parse_time_prefix_value:
  assumes "ds \<noteq> []" "list_all is_digit ds" "unit_class (lower_char u)"
  shows "parse_time (ds @ u # rest) = Some (int_of_digits ds * multiplier (lower_char u))"
proof -
  have nd: "\<not> is_digit (lower_char u)"
    using assms(3) digit_not_unit by blast
  have low: "lower (ds @ u # rest) = ds @ lower_char u # lower rest"
    using lower_digits [OF assms(2)] by (simp add: lower_def)
  show ?thesis
    using assms nd
    by (simp add: parse_time_def low re_match_greedy takeWhile_digits dropWhile_digits
        units_multiplier Let_def)
qed

lemma lower_char_digit_iff: "is_digit (lower_char c) \<longleftrightarrow> is_digit c"
  by (auto simp: is_digit_def lower_char_def Let_def)

lemma takeWhile_lower: "takeWhile is_digit (lower s) = takeWhile is_digit s"
  by (induction s) (auto simp: lower_def lower_char_digit_iff is_digit_lower)

lemma dropWhile_lower: "dropWhile is_digit (lower s) = lower (dropWhile is_digit s)"
  by (induction s) (auto simp: lower_def lower_char_digit_iff)

lemma parse_time_Some_prefix:
  assumes "parse_time s = Some v"
  shows "\<exists>ds u rest. ds \<noteq> [] \<and> list_all is_digit ds \<and> unit_class (lower_char u) \<and> s = ds @ u # rest"
proof -
  let ?ds = "takeWhile is_digit s" and ?r = "dropWhile is_digit s"
  from assms have m: "?ds \<noteq> [] \<and> lower ?r \<noteq> [] \<and> unit_class (hd (lower ?r))"
    by (auto simp: parse_time_def re_match_greedy takeWhile_lower dropWhile_lower Let_def
        split: if_splits)
  then obtain u rest where r: "?r = u # rest"
    by (cases ?r) (auto simp: lower_def)
  have "s = ?ds @ u # rest"
    using r takeWhile_dropWhile_id [of is_digit s] by simp
  moreover have "list_all is_digit ?ds"
    by (simp add: list_all_iff) (meson set_takeWhileD)
  moreover have "unit_class (lower_char u)"
    using m r by (simp add: lower_def)
  ultimately show ?thesis using m by blast
qed

text \<open>
  Claim C6. \<open>parse_time\<close> maps \<open>10m\<close> to 600 and \<open>2h\<close> to 7200; on every token made of
  a non-empty run of digits and one unit letter out of s, m, h, d in either case it
  returns the number the digits denote times the multiplier of the unit (1, 60, 3600,
  86400); it returns no value on the empty string, on \<open>bogus\<close>, and on every input
  that does not begin with digits followed by a unit letter.
\<close>

theorem parse_time_tokens:
  "parse_time ''10m'' = Some 600 \<and> parse_time ''2h'' = Some 7200 \<and>
   (\<forall>ds u. ds \<noteq> [] \<and> list_all is_digit ds \<and> unit_class (lower_char u) \<longrightarrow>
      parse_time (ds @ [u]) = Some (int_of_digits ds * multiplier (lower_char u))) \<and>
   parse_time [] = None \<and> parse_time ''bogus'' = None \<and>
   (\<forall>s. (\<nexists>ds u rest. ds \<noteq> [] \<and> list_all is_digit ds \<and> unit_class (lower_char u) \<and>
                     s = ds @ u # rest) \<longrightarrow> parse_time s = None)"
proof (intro conjI allI impI)
  have d10: "list_all is_digit ''10''" and d2: "list_all is_digit ''2''"
    by (simp_all add: is_digit_def)
  have um: "unit_class (lower_char CHR ''m'')" and uh: "unit_class (lower_char CHR ''h'')"
    by (simp_all add: unit_class_def lower_char_def)
  show "parse_time ''10m'' = Some 600"
    using parse_time_prefix_value [of "''10''" "CHR ''m''" "[]"] d10 um
    by (simp add: int_of_digits_def digit_val_def multiplier_def lower_char_def)
  show "parse_time ''2h'' = Some 7200"
    using parse_time_prefix_value [of "''2''" "CHR ''h''" "[]"] d2 uh
    by (simp add: int_of_digits_def digit_val_def multiplier_def lower_char_def)
  show "parse_time [] = None"
    by (simp add: parse_time_def)
next
  fix ds u
  assume "ds \<noteq> [] \<and> list_all is_digit ds \<and> unit_class (lower_char u)"
  then show "parse_time (ds @ [u]) = Some (int_of_digits ds * multiplier (lower_char u))"
    using parse_time_prefix_value [of ds u "[]"] by simp
next
  fix s
  assume no: "\<nexists>ds u rest. ds \<noteq> [] \<and> list_all is_digit ds \<and> unit_class (lower_char u) \<and>
                     s = ds @ u # rest"
  show "parse_time s = None"
  proof (cases "parse_time s")
    case None
    then show ?thesis .
  next
    case (Some v)
    from parse_time_Some_prefix [OF Some] no show ?thesis by blast
  qed
next
  show "parse_time ''bogus'' = None"
    by (simp add: parse_time_def re_match_greedy lower_def lower_char_def is_digit_def)
qed

theorem parse_time_tokens_witness:
  "parse_time ''45S'' = Some 45 \<and> parse_time ''3D'' = Some 259200 \<and> parse_time ''m5'' = None"
proof -
  have a: "''45'' \<noteq> [] \<and> list_all is_digit ''45'' \<and> unit_class (lower_char CHR ''S'')"
    by code_simp
  have b: "''3'' \<noteq> [] \<and> list_all is_digit ''3'' \<and> unit_class (lower_char CHR ''D'')"
    by code_simp
  have c: "\<nexists>ds u rest. ds \<noteq> [] \<and> list_all is_digit ds \<and> unit_class (lower_char u) \<and>
                     ''m5'' = ds @ u # rest"
  proof
    assume "\<exists>ds u rest. ds \<noteq> [] \<and> list_all is_digit ds \<and> unit_class (lower_char u) \<and>
                     ''m5'' = ds @ u # rest"
    then obtain ds u rest where h: "ds \<noteq> []" "list_all is_digit ds" "''m5'' = ds @ u # rest"
      by blast
    then obtain x xs where "ds = x # xs" by (cases ds) auto
    with h have "is_digit CHR ''m''" by simp
    then show False by (simp add: is_digit_def)
  qed
  from parse_time_tokens a b c
  have "parse_time (''45'' @ [CHR ''S'']) = Some (int_of_digits ''45'' * multiplier (lower_char CHR ''S''))"
    and "parse_time (''3'' @ [CHR ''D'']) = Some (int_of_digits ''3'' * multiplier (lower_char CHR ''D''))"
    and "parse_time ''m5'' = None"
    by blast+
  moreover have "lower_char CHR ''S'' = CHR ''s''" and "lower_char CHR ''D'' = CHR ''d''"
    by code_simp+
  ultimately show ?thesis
    by (simp add: int_of_digits_def digit_val_def multiplier_def)
qed

text \<open>
  Claim C10. \<open>parse_time\<close> matches a prefix only: an input that begins with digits
  and a unit letter and goes on with any characters gets the value of the bare token,
  not the answer "no value"; \<open>10mfoo\<close> and \<open>10m extra\<close> both give 600.
\<close>

theorem parse_time_prefix_only:
  "(\<forall>ds u rest. ds \<noteq> [] \<and> list_all is_digit ds \<and> unit_class (lower_char u) \<longrightarrow>
      parse_time (ds @ u # rest) = parse_time (ds @ [u]) \<and> parse_time (ds @ u # rest) \<noteq> None) \<and>
   parse_time ''10mfoo'' = Some 600 \<and> parse_time ''10m extra'' = Some 600"
proof (intro conjI allI impI)
  fix ds u rest
  assume h: "ds \<noteq> [] \<and> list_all is_digit ds \<and> unit_class (lower_char u)"
  then show "parse_time (ds @ u # rest) = parse_time (ds @ [u])"
    using parse_time_prefix_value [of ds u rest] parse_time_prefix_value [of ds u "[]"] by simp
  from h show "parse_time (ds @ u # rest) \<noteq> None"
    using parse_time_prefix_value [of ds u rest] by simp
next
  have d10: "list_all is_digit ''10''"
    by (simp add: is_digit_def)
  have um: "unit_class (lower_char CHR ''m'')"
    by (simp add: unit_class_def lower_char_def)
  show "parse_time ''10mfoo'' = Some 600"
    using parse_time_prefix_value [of "''10''" "CHR ''m''" "''foo''"] d10 um
    by (simp add: int_of_digits_def digit_val_def multiplier_def lower_char_def)
  show "parse_time ''10m extra'' = Some 600"
    using parse_time_prefix_value [of "''10''" "CHR ''m''" "'' extra''"] d10 um
    by (simp add: int_of_digits_def digit_val_def multiplier_def lower_char_def)
qed

theorem parse_time_prefix_only_witness:
  "parse_time ''7H30'' = parse_time ''7H'' \<and> parse_time ''7H30'' \<noteq> None"
proof -
  have a: "''7'' \<noteq> [] \<and> list_all is_digit ''7'' \<and> unit_class (lower_char CHR ''H'')"
    by code_simp
  from parse_time_prefix_only a
  have "parse_time (''7'' @ CHR ''H'' # ''30'') = parse_time (''7'' @ [CHR ''H'']) \<and>
        parse_time (''7'' @ CHR ''H'' # ''30'') \<noteq> None"
    by blast
  moreover have "''7'' @ CHR ''H'' # ''30'' = ''7H30''" and "''7'' @ [CHR ''H''] = ''7H''"
    by simp_all
  ultimately show ?thesis by metis
qed

section \<open>The moderation store: proofs\<close>

subsection \<open>Removing the newest warning\<close>










subsection \<open>The key constraints are kept\<close>

lemma foldr_max_ge: "x \<in> set xs \<Longrightarrow> x \<le> foldr max xs (s::nat)"
  by (induction xs) (auto simp: max.coboundedI2)

lemma next_id_fresh: "r \<in> set (warnings d) \<Longrightarrow> w_id r < next_id d"
  using foldr_max_ge [of "w_id r" "map w_id (warnings d)" "warnings_seq d"]
  by (simp add: next_id_def less_Suc_eq_le)

lemma warnings_ok_empty: "warnings_ok empty_db"
  by (simp add: warnings_ok_def empty_db_def)

lemma warnings_ok_add_warning:
  assumes "warnings_ok d" "add_warning d c u b why now = Inr (d', n)"
  shows "warnings_ok d'"
proof -
  from assms(2) have fresh: "\<forall>r \<in> set (warnings d). \<not> (of_user c u r \<and> created_at r = now)"
    and d': "d' = d\<lparr>warnings := warnings d @ [\<lparr>w_id = next_id d, w_chat = c, w_user = u,
                warned_by = b, w_reason = why, created_at = now\<rparr>], warnings_seq := next_id d\<rparr>"
    by (auto simp: add_warning_def Let_def split: if_splits)
  have "next_id d \<notin> w_id ` set (warnings d)"
    using next_id_fresh by fastforce
  moreover have "(c, u, now) \<notin> (\<lambda>r. (w_chat r, w_user r, created_at r)) ` set (warnings d)"
    using fresh by (auto simp: of_user_def)
  ultimately show ?thesis
    using assms(1) by (simp add: warnings_ok_def d')
qed

lemma warnings_ok_filter:
  "warnings_ok d \<Longrightarrow> warnings_ok (d\<lparr>warnings := filter P (warnings d)\<rparr>)"
  by (simp add: warnings_ok_def distinct_map_filter)

lemma warnings_ok_clear_warnings: "warnings_ok d \<Longrightarrow> warnings_ok (clear_warnings d c u)"
  by (simp add: clear_warnings_def warnings_ok_filter)

lemma warnings_ok_remove_warning: "warnings_ok d \<Longrightarrow> warnings_ok (fst (remove_warning d c u))"
  by (simp add: remove_warning_def Let_def warnings_ok_filter split: option.splits)

subsection \<open>Mute lookup\<close>

text \<open>
  Claim C4. \<open>is_muted\<close> answers false when the user has no mute record and true when
  the stored expiry is later than the current time, both without changing the store.
  When the stored expiry is at or before the current time it answers false and deletes
  that record and no other; the same call repeated right away answers false again and
  changes nothing.
\<close>

theorem is_muted_lazy_expiry:
  "(muted_users d (c, u) = None \<longrightarrow> is_muted d c u now = (d, False)) \<and>
   (\<forall>t. muted_users d (c, u) = Some t \<and> now < t \<longrightarrow> is_muted d c u now = (d, True)) \<and>
   (\<forall>t. muted_users d (c, u) = Some t \<and> t \<le> now \<longrightarrow>
      is_muted d c u now = (remove_mute d c u, False) \<and>
      muted_users (remove_mute d c u) (c, u) = None \<and>
      (\<forall>k. k \<noteq> (c, u) \<longrightarrow> muted_users (remove_mute d c u) k = muted_users d k) \<and>
      is_muted (remove_mute d c u) c u now = (remove_mute d c u, False))"
  by (auto simp: is_muted_def remove_mute_def)

theorem is_muted_lazy_expiry_witness:
  "is_muted empty_db 1 2 50 = (empty_db, False) \<and>
   is_muted one_mute 1 2 99 = (one_mute, True) \<and>
   is_muted one_mute 1 2 100 = (remove_mute one_mute 1 2, False) \<and>
   muted_users (remove_mute one_mute 1 2) (1, 2) = None \<and>
   is_muted (remove_mute one_mute 1 2) 1 2 100 = (remove_mute one_mute 1 2, False)"
proof -
  have a: "muted_users empty_db (1, 2) = None"
    by (simp add: empty_db_def)
  have b: "muted_users one_mute (1, 2) = Some 100 \<and> (99::int) < 100"
    by (simp add: one_mute_def)
  have c: "muted_users one_mute (1, 2) = Some 100 \<and> (100::int) \<le> 100"
    by (simp add: one_mute_def)
  from is_muted_lazy_expiry [of empty_db 1 2 50] a
  have "is_muted empty_db 1 2 50 = (empty_db, False)" by blast
  moreover from is_muted_lazy_expiry [of one_mute 1 2 99] b
  have "is_muted one_mute 1 2 99 = (one_mute, True)" by blast
  moreover from is_muted_lazy_expiry [of one_mute 1 2 100] c
  have "is_muted one_mute 1 2 100 = (remove_mute one_mute 1 2, False) \<and>
        muted_users (remove_mute one_mute 1 2) (1, 2) = None \<and>
        is_muted (remove_mute one_mute 1 2) 1 2 100 = (remove_mute one_mute 1 2, False)"
    by blast
  ultimately show ?thesis by blast
qed

subsection \<open>User statistics\<close>

lemma update_user_stats_seq_snoc:
  "update_user_stats_seq d c u (ts @ [t]) = update_user_stats (update_user_stats_seq d c u ts) c u t"
  by (simp add: update_user_stats_seq_def)

lemma user_stats_seq_value:
  "ts \<noteq> [] \<Longrightarrow>
   user_stats (update_user_stats_seq d c u ts) (c, u) =
     Some \<lparr>messages_count = (case user_stats d (c, u) of
                                None \<Rightarrow> 0 | Some st \<Rightarrow> messages_count st) + int (length ts),
           first_seen = (case user_stats d (c, u) of
                           None \<Rightarrow> hd ts | Some st \<Rightarrow> first_seen st),
           last_seen = last ts\<rparr>"
proof (induction ts rule: rev_induct)
  case Nil
  then show ?case by simp
next
  case (snoc t ts)
  show ?case
  proof (cases "ts = []")
    case True
    then show ?thesis
      by (simp add: update_user_stats_seq_def update_user_stats_def split: option.splits)
  next
    case False
    with snoc.IH show ?thesis
      by (simp add: update_user_stats_seq_snoc update_user_stats_def split: option.splits)
  qed
qed

text \<open>
  Claim C9, as stated, fails in its last part: \<open>datetime.now()\<close> is the wall clock,
  and when its reading at a later call is earlier than at the first call, the stored
  first seen time is later than the stored last seen time. Two calls at the readings
  20 and 10 leave first seen 20 and last seen 10.
\<close>

theorem user_stats_clock_back_counterexample:
  "user_stats (update_user_stats_seq empty_db 1 2 [20, 10]) (1, 2)
     = Some \<lparr>messages_count = 2, first_seen = 20, last_seen = 10\<rparr> \<and>
   \<not> first_seen (the (user_stats (update_user_stats_seq empty_db 1 2 [20, 10]) (1, 2)))
       \<le> last_seen (the (user_stats (update_user_stats_seq empty_db 1 2 [20, 10]) (1, 2)))"
  by (simp add: update_user_stats_seq_def update_user_stats_def empty_db_def)

lemma user_stats_seq_invariant:
  assumes "sorted ts"
    and "\<forall>st. user_stats d (c, u) = Some st \<longrightarrow>
           first_seen st \<le> last_seen st \<and> (\<forall>t \<in> set ts. first_seen st \<le> t)"
    and "user_stats (update_user_stats_seq d c u ts) (c, u) = Some st'"
  shows "first_seen st' \<le> last_seen st'"
proof (cases "ts = []")
  case True
  with assms(2,3) show ?thesis by (simp add: update_user_stats_seq_def)
next
  case False
  then have l: "last ts \<in> set ts" by simp
  have "hd ts \<le> last ts"
    using assms(1) False by (metis l list.collapse order_refl set_ConsD sorted_simps(2))
  with assms(2,3) l user_stats_seq_value [OF False, of d c u] show ?thesis
    by (auto split: option.splits)
qed

text \<open>
  Claim C9, amended. After a non-empty run of \<open>update_user_stats\<close> calls for one user
  the message count has grown by one per call, from 1 at the first call ever; the
  first seen time is the time of the first call ever and later calls keep it; the last
  seen time is the time of the latest call. When the clock readings of the calls never
  decrease, and are not earlier than a first seen time stored before, the first seen
  time is at most the last seen time after each call of the run.
\<close>

theorem user_stats_sequence:
  "(ts \<noteq> [] \<longrightarrow>
      user_stats (update_user_stats_seq d c u ts) (c, u) =
        Some \<lparr>messages_count = (case user_stats d (c, u) of
                                   None \<Rightarrow> 0 | Some st \<Rightarrow> messages_count st) + int (length ts),
              first_seen = (case user_stats d (c, u) of
                              None \<Rightarrow> hd ts | Some st \<Rightarrow> first_seen st),
              last_seen = last ts\<rparr>) \<and>
   (sorted ts \<and> (\<forall>st. user_stats d (c, u) = Some st \<longrightarrow>
                    first_seen st \<le> last_seen st \<and> (\<forall>t \<in> set ts. first_seen st \<le> t)) \<longrightarrow>
      (\<forall>n st'. user_stats (update_user_stats_seq d c u (take n ts)) (c, u) = Some st' \<longrightarrow>
          first_seen st' \<le> last_seen st'))"
proof (intro conjI impI allI)
  assume "ts \<noteq> []"
  then show "user_stats (update_user_stats_seq d c u ts) (c, u) =
        Some \<lparr>messages_count = (case user_stats d (c, u) of
                                   None \<Rightarrow> 0 | Some st \<Rightarrow> messages_count st) + int (length ts),
              first_seen = (case user_stats d (c, u) of
                              None \<Rightarrow> hd ts | Some st \<Rightarrow> first_seen st),
              last_seen = last ts\<rparr>"
    by (rule user_stats_seq_value)
next
  fix n st'
  assume h: "sorted ts \<and> (\<forall>st. user_stats d (c, u) = Some st \<longrightarrow>
                    first_seen st \<le> last_seen st \<and> (\<forall>t \<in> set ts. first_seen st \<le> t))"
    and st': "user_stats (update_user_stats_seq d c u (take n ts)) (c, u) = Some st'"
  have s: "sorted (take n ts)"
    using h by (simp add: sorted_wrt_take)
  have p: "\<forall>st. user_stats d (c, u) = Some st \<longrightarrow>
             first_seen st \<le> last_seen st \<and> (\<forall>t \<in> set (take n ts). first_seen st \<le> t)"
    using h by (auto dest: in_set_takeD)
  show "first_seen st' \<le> last_seen st'"
    using s p st' by (rule user_stats_seq_invariant)
qed

theorem user_stats_sequence_witness:
  "user_stats (update_user_stats_seq empty_db 1 2 [10]) (1, 2)
     = Some \<lparr>messages_count = 1, first_seen = 10, last_seen = 10\<rparr> \<and>
   user_stats (update_user_stats_seq empty_db 1 2 [10, 20, 20]) (1, 2)
     = Some \<lparr>messages_count = 3, first_seen = 10, last_seen = 20\<rparr> \<and>
   first_seen (the (user_stats (update_user_stats_seq empty_db 1 2 [10, 20, 20]) (1, 2)))
     \<le> last_seen (the (user_stats (update_user_stats_seq empty_db 1 2 [10, 20, 20]) (1, 2)))"
proof -
  have e: "user_stats empty_db (1, 2) = None"
    by (simp add: empty_db_def)
  have s: "sorted [10, 20, 20 :: int] \<and>
           (\<forall>st. user_stats empty_db (1, 2) = Some st \<longrightarrow>
              first_seen st \<le> last_seen st \<and> (\<forall>t \<in> set [10, 20, 20]. first_seen st \<le> t))"
    using e by simp
  from user_stats_sequence [of "[10]" empty_db 1 2] e
  have "user_stats (update_user_stats_seq empty_db 1 2 [10]) (1, 2)
          = Some \<lparr>messages_count = 1, first_seen = 10, last_seen = 10\<rparr>"
    by simp
  moreover from user_stats_sequence [of "[10, 20, 20]" empty_db 1 2] e s
  have v: "user_stats (update_user_stats_seq empty_db 1 2 [10, 20, 20]) (1, 2)
          = Some \<lparr>messages_count = 3, first_seen = 10, last_seen = 20\<rparr>"
    and i: "\<forall>n st'. user_stats (update_user_stats_seq empty_db 1 2 (take n [10, 20, 20])) (1, 2)
              = Some st' \<longrightarrow> first_seen st' \<le> last_seen st'"
    by simp_all
  moreover from v i [rule_format, of 3]
  have "first_seen (the (user_stats (update_user_stats_seq empty_db 1 2 [10, 20, 20]) (1, 2)))
     \<le> last_seen (the (user_stats (update_user_stats_seq empty_db 1 2 [10, 20, 20]) (1, 2)))"
    by simp
  ultimately show ?thesis by blast
qed

section \<open>The handlers: proofs\<close>

subsection \<open>No handler writes a settings row\<close>

lemma chat_settings_add_warning:
  "add_warning d c u b why now = Inr (d', n) \<Longrightarrow> chat_settings d' = chat_settings d"
  by (auto simp: add_warning_def Let_def split: if_splits)

lemma chat_settings_is_muted: "chat_settings (fst (is_muted d c u now)) = chat_settings d"
  by (simp add: is_muted_def remove_mute_def split: option.splits)

lemma chat_settings_add_mute:
  "add_mute d c u n now = Inr (d', t) \<Longrightarrow> chat_settings d' = chat_settings d"
  by (auto simp: add_mute_def split: sum.splits)

lemma chat_settings_warn_command:
  "chat_settings (db (state (warn_command ok upd s))) = chat_settings (db s)"
  by (auto simp: warn_command_def last_call_def finish_def crash_def Let_def clear_warnings_def
      dest: chat_settings_add_warning split: option.splits sum.splits)

lemma chat_settings_flood_action:
  "chat_settings (db (state (flood_action ok upd s))) = chat_settings (db s)"
  by (auto simp: flood_action_def finish_def Let_def dest: chat_settings_add_mute
      split: sum.splits)

lemma chat_settings_word_filter:
  "chat_settings (db (state (word_filter ok upd txt row s))) = chat_settings (db s)"
  by (auto simp: word_filter_def finish_def Let_def dest: chat_settings_add_warning
      split: option.splits sum.splits)

lemma chat_settings_handle_messages:
  "chat_settings (db (state (handle_messages ok upd s))) = chat_settings (db s)"
proof -
  obtain d1 m where im: "is_muted (db s) (u_chat upd) (u_user upd) (u_now upd) = (d1, m)"
    by (cases "is_muted (db s) (u_chat upd) (u_user upd) (u_now upd)")
  have d1: "chat_settings d1 = chat_settings (db s)"
    using chat_settings_is_muted [of "db s" "u_chat upd" "u_user upd" "u_now upd"] im by simp
  show ?thesis
    using d1
    by (simp add: handle_messages_def im finish_def crash_def Let_def update_user_stats_def
        chat_settings_flood_action chat_settings_word_filter
        split: option.splits sum.splits bool.splits)
qed

lemma chat_settings_handle_all:
  "chat_settings (db (handle_all ok upds s)) = chat_settings (db s)"
  unfolding handle_all_def
  by (induction upds arbitrary: s) (simp_all add: chat_settings_handle_messages)

lemma chat_settings_warn_all:
  "chat_settings (db (warn_all ok upds s)) = chat_settings (db s)"
  unfolding warn_all_def
  by (induction upds arbitrary: s) (simp_all add: chat_settings_warn_command)

lemma chat_settings_unwarn_command:
  "chat_settings (db (state (unwarn_command ok upd s))) = chat_settings (db s)"
  by (auto simp: unwarn_command_def last_call_def remove_warning_def Let_def
      split: option.splits prod.splits)

lemma chat_settings_mute_command:
  "chat_settings (db (state (mute_command ok upd s))) = chat_settings (db s)"
  by (auto simp: mute_command_def last_call_def finish_def crash_def Let_def
      dest: chat_settings_add_mute split: option.splits sum.splits)

text \<open>
  The only statement that inserts a settings row is the one in \<open>get_chat_settings\<close>
  that raises, so a process started on a new database never holds a settings row.
\<close>

lemma reachable_no_settings: "reachable s \<Longrightarrow> chat_settings (db s) c = None"
proof (induction rule: reachable.induct)
  case start
  show ?case by (simp add: fresh_bot_def empty_db_def)
next
  case (warn s ok upd)
  then show ?case by (simp add: chat_settings_warn_command)
next
  case (unwarn s ok upd)
  then show ?case by (simp add: chat_settings_unwarn_command)
next
  case (mute s ok upd)
  then show ?case by (simp add: chat_settings_mute_command)
next
  case (text_message s ok upd)
  then show ?case by (simp add: chat_settings_handle_messages)
qed

subsection \<open>Messages of a muted sender\<close>

lemma is_muted_True: "snd (is_muted d c u now) \<Longrightarrow> is_muted d c u now = (d, True)"
  by (auto simp: is_muted_def split: option.splits if_splits)

text \<open>
  Claim C5. When the sender of an inbound text message is muted at the time of
  handling, the handler asks the platform to delete the message and does nothing else:
  the store and the flood cache are left exactly as they were, so no statistics are
  updated, no time is appended to the flood window and no warning is added.
\<close>

theorem muted_sender_discarded:
  assumes "u_text upd = Some txt" "txt \<noteq> []"
    and "snd (is_muted (db s) (u_chat upd) (u_user upd) (u_now upd))"
  shows "handle_messages ok upd s = \<lparr>state = s, calls = [Delete_message], raised = None\<rparr>"
  using assms(1,2) is_muted_True [OF assms(3)]
  by (simp add: handle_messages_def finish_def)

theorem muted_sender_discarded_witness:
  "snd (is_muted one_mute 1 2 0) \<and>
   handle_messages accept_all (message 2 ''spam'' 0) \<lparr>db = one_mute, flood_cache = Map.empty\<rparr>
     = \<lparr>state = \<lparr>db = one_mute, flood_cache = Map.empty\<rparr>, calls = [Delete_message], raised = None\<rparr>"
proof -
  let ?s = "\<lparr>db = one_mute, flood_cache = Map.empty\<rparr>" and ?m = "message 2 ''spam'' 0"
  have t: "u_text ?m = Some ''spam''" and n: "''spam'' \<noteq> []"
    by (simp_all add: message_def)
  have m: "snd (is_muted (db ?s) (u_chat ?m) (u_user ?m) (u_now ?m))"
    by (simp add: is_muted_def one_mute_def message_def)
  from muted_sender_discarded [OF t n m, of accept_all] m show ?thesis
    by (simp add: message_def)
qed

subsection \<open>The duration of \<open>/mute\<close>\<close>

lemma mute_command_recorded:
  assumes "u_is_admin upd" "u_reply_to upd = Some v" "0 \<le> u_now upd"
    and "0 \<le> mute_duration (u_args upd)"
    and "u_now upd + mute_duration (u_args upd) * 1000000 \<le> datetime_max"
    and "ok (Restrict_member v Mute_permissions (u_now upd + mute_duration (u_args upd) * 1000000))"
  shows "muted_users (db (state (mute_command ok upd s))) (u_chat upd, v)
           = Some (u_now upd + mute_duration (u_args upd) * 1000000)"
proof -
  have "0 \<le> u_now upd + mute_duration (u_args upd) * 1000000"
    using assms(3,4) by simp
  then have a: "add_seconds (u_now upd) (mute_duration (u_args upd))
        = Inr (u_now upd + mute_duration (u_args upd) * 1000000)"
    using assms(5) by (simp add: add_seconds_def Let_def)
  show ?thesis
    using assms(1,2,6)
    by (simp add: mute_command_def a add_mute_def Let_def finish_def last_call_def)
qed

lemma mute_command_args:
  "mute_duration as = mute_duration bs \<Longrightarrow>
   mute_command ok (upd\<lparr>u_args := as\<rparr>) s = mute_command ok (upd\<lparr>u_args := bs\<rparr>) s"
  by (simp add: mute_command_def Let_def cong: option.case_cong sum.case_cong if_cong)

lemma parse_time_3600s: "parse_time ''3600s'' = Some 3600"
  by code_simp

text \<open>
  Claim C7, as stated, fails: the token \<open>0s\<close> parses (to 0 seconds), yet the command
  records a mute of 3600 seconds, because the test \<open>not duration\<close> holds for 0 too.
\<close>

theorem mute_zero_token_counterexample:
  "parse_time ''0s'' = Some 0 \<and>
   muted_users (db (state (mute_command accept_all (command 2 [''0s''] 0) fresh_bot))) (1, 2)
     = Some (3600 * 1000000)"
  by code_simp

text \<open>
  Claim C7, amended. For a \<open>/mute\<close> of an administrator sent as a reply: when the
  first argument parses to \<open>n \<ge> 1\<close> seconds, the expiry is a representable
  \<open>datetime\<close> and the platform accepts the restriction, the mute is recorded with
  duration \<open>n\<close>. When there is no argument, when the argument does not parse, and
  when it parses to 0, the command behaves exactly as with the argument \<open>3600s\<close>, and
  under the same two conditions records a mute of 3600 seconds.
\<close>

theorem mute_command_duration:
  assumes "u_is_admin upd" "u_reply_to upd = Some v" "0 \<le> u_now upd"
  shows "(\<forall>a rest n. u_args upd = a # rest \<and> parse_time a = Some n \<and> 0 < n \<and>
            u_now upd + n * 1000000 \<le> datetime_max \<and>
            ok (Restrict_member v Mute_permissions (u_now upd + n * 1000000)) \<longrightarrow>
            muted_users (db (state (mute_command ok upd s))) (u_chat upd, v)
              = Some (u_now upd + n * 1000000)) \<and>
         ((u_args upd = [] \<or> (\<exists>a rest. u_args upd = a # rest \<and>
                                  (parse_time a = None \<or> parse_time a = Some 0))) \<longrightarrow>
            mute_command ok upd s = mute_command ok (upd\<lparr>u_args := [''3600s'']\<rparr>) s \<and>
            (u_now upd + 3600 * 1000000 \<le> datetime_max \<and>
             ok (Restrict_member v Mute_permissions (u_now upd + 3600 * 1000000)) \<longrightarrow>
               muted_users (db (state (mute_command ok upd s))) (u_chat upd, v)
                 = Some (u_now upd + 3600 * 1000000)))"
proof (intro conjI allI impI)
  fix a rest n
  assume h: "u_args upd = a # rest \<and> parse_time a = Some n \<and> 0 < n \<and>
            u_now upd + n * 1000000 \<le> datetime_max \<and>
            ok (Restrict_member v Mute_permissions (u_now upd + n * 1000000))"
  then have d: "mute_duration (u_args upd) = n"
    by (simp add: mute_duration_def)
  show "muted_users (db (state (mute_command ok upd s))) (u_chat upd, v)
              = Some (u_now upd + n * 1000000)"
    using mute_command_recorded [OF assms, of ok s] h d by simp
next
  assume h: "u_args upd = [] \<or> (\<exists>a rest. u_args upd = a # rest \<and>
                                  (parse_time a = None \<or> parse_time a = Some 0))"
  then have d: "mute_duration (u_args upd) = 3600"
    by (auto simp: mute_duration_def)
  have d': "mute_duration [''3600s''] = 3600"
    by (simp add: mute_duration_def parse_time_3600s)
  have "mute_command ok (upd\<lparr>u_args := u_args upd\<rparr>) s
          = mute_command ok (upd\<lparr>u_args := [''3600s'']\<rparr>) s"
    by (rule mute_command_args) (simp add: d d')
  then show "mute_command ok upd s = mute_command ok (upd\<lparr>u_args := [''3600s'']\<rparr>) s"
    by simp
  assume "u_now upd + 3600 * 1000000 \<le> datetime_max \<and>
             ok (Restrict_member v Mute_permissions (u_now upd + 3600 * 1000000))"
  then show "muted_users (db (state (mute_command ok upd s))) (u_chat upd, v)
                 = Some (u_now upd + 3600 * 1000000)"
    using mute_command_recorded [OF assms, of ok s] d by simp
qed

theorem mute_command_duration_witness:
  "muted_users (db (state (mute_command accept_all (command 2 [''10m''] 0) fresh_bot))) (1, 2)
     = Some 600000000 \<and>
   mute_command accept_all (command 2 [''bogus''] 0) fresh_bot
     = mute_command accept_all (command 2 [''3600s''] 0) fresh_bot \<and>
   muted_users (db (state (mute_command accept_all (command 2 [''bogus''] 0) fresh_bot))) (1, 2)
     = Some 3600000000"
proof -
  let ?a = "command 2 [''10m''] 0" and ?b = "command 2 [''bogus''] 0"
  have pa: "parse_time ''10m'' = Some 600" and pb: "parse_time ''bogus'' = None"
    by code_simp+
  have a: "u_is_admin ?a" "u_reply_to ?a = Some 2" "0 \<le> u_now ?a"
    and b: "u_is_admin ?b" "u_reply_to ?b = Some 2" "0 \<le> u_now ?b"
    by (simp_all add: command_def)
  have ha: "u_args ?a = ''10m'' # [] \<and> parse_time ''10m'' = Some 600 \<and> (0::int) < 600 \<and>
            u_now ?a + 600 * 1000000 \<le> datetime_max \<and>
            accept_all (Restrict_member 2 Mute_permissions (u_now ?a + 600 * 1000000))"
    using pa by (simp add: command_def datetime_max_def accept_all_def)
  have hb: "u_args ?b = [] \<or> (\<exists>a rest. u_args ?b = a # rest \<and>
              (parse_time a = None \<or> parse_time a = Some 0))"
    using pb by (simp add: command_def)
  have hb': "u_now ?b + 3600 * 1000000 \<le> datetime_max \<and>
             accept_all (Restrict_member 2 Mute_permissions (u_now ?b + 3600 * 1000000))"
    by (simp add: command_def datetime_max_def accept_all_def)
  from mute_command_duration [OF a, of accept_all fresh_bot] ha
  have "muted_users (db (state (mute_command accept_all ?a fresh_bot))) (u_chat ?a, 2)
          = Some (u_now ?a + 600 * 1000000)"
    by blast
  moreover from mute_command_duration [OF b, of accept_all fresh_bot] hb hb'
  have "mute_command accept_all ?b fresh_bot
          = mute_command accept_all (?b\<lparr>u_args := [''3600s'']\<rparr>) fresh_bot"
    and "muted_users (db (state (mute_command accept_all ?b fresh_bot))) (u_chat ?b, 2)
          = Some (u_now ?b + 3600 * 1000000)"
    by blast+
  ultimately show ?thesis
    by (simp add: command_def)
qed

text \<open>
  A token whose duration leads beyond the last \<open>datetime\<close> parses, and the sum
  computed before the \<open>try\<close> raises \<open>OverflowError\<close>: the exception leaves the
  handler, no platform call is issued and no mute is recorded.
\<close>

lemma mute_command_overflow:
  "parse_time ''99999999999d'' = Some 8639999999913600 \<and>
   raised (mute_command accept_all (command 2 [''99999999999d''] 0) fresh_bot)
     = Some OverflowError \<and>
   calls (mute_command accept_all (command 2 [''99999999999d''] 0) fresh_bot) = [] \<and>
   muted_users (db (state (mute_command accept_all (command 2 [''99999999999d''] 0) fresh_bot)))
     (1, 2) = None"
  by code_simp

subsection \<open>Warnings given by \<open>/warn\<close>\<close>

lemma get_warnings_count_add_warning:
  "add_warning d c u b why now = Inr (d', n) \<Longrightarrow>
   n = get_warnings_count d c u + 1 \<and> get_warnings_count d' c u = n"
  by (auto simp: add_warning_def get_warnings_count_def of_user_def Let_def split: if_splits)

lemma get_warnings_count_clear_warnings: "get_warnings_count (clear_warnings d c u) c u = 0"
  by (simp add: clear_warnings_def get_warnings_count_def)

text \<open>
  The design of the handler, in a chat that has a stored settings row with the warn
  limit \<open>L\<close>: let an administrator reply \<open>/warn\<close> to a message of a user at a clock
  reading that none of that user's stored warnings carries. When the new warning
  brings the count to \<open>L\<close> or above, the first platform call of the handler is the
  ban of that user; when the platform accepts the ban, all warnings of the user in the
  chat are deleted and the count is 0 (when it rejects the ban, the warning just added
  stays). When the count is still below \<open>L\<close>, no ban is issued and the count is one
  more than before.
\<close>

lemma warn_command_limit:
  assumes "u_is_admin upd" "u_reply_to upd = Some v"
    and "chat_settings (db s) (u_chat upd) = Some row" "warn_limit row = L"
    and "\<forall>r \<in> set (warnings (db s)). \<not> (of_user (u_chat upd) v r \<and> created_at r = u_now upd)"
  shows "(L \<le> get_warnings_count (db s) (u_chat upd) v + 1 \<longrightarrow>
            take 1 (calls (warn_command ok upd s)) = [Ban_member v] \<and>
            (ok (Ban_member v) \<longrightarrow>
               get_warnings_count (db (state (warn_command ok upd s))) (u_chat upd) v = 0 \<and>
               (\<forall>r \<in> set (warnings (db (state (warn_command ok upd s)))).
                  \<not> of_user (u_chat upd) v r)) \<and>
            (\<not> ok (Ban_member v) \<longrightarrow>
               get_warnings_count (db (state (warn_command ok upd s))) (u_chat upd) v
                 = get_warnings_count (db s) (u_chat upd) v + 1)) \<and>
         (get_warnings_count (db s) (u_chat upd) v + 1 < L \<longrightarrow>
            Ban_member v \<notin> set (calls (warn_command ok upd s)) \<and>
            get_warnings_count (db (state (warn_command ok upd s))) (u_chat upd) v
              = get_warnings_count (db s) (u_chat upd) v + 1)"
proof -
  let ?why = "if u_args upd = [] then No_reason else Reason (join (u_args upd))"
  obtain d1 n where a: "add_warning (db s) (u_chat upd) v (u_user upd) ?why (u_now upd) = Inr (d1, n)"
    using assms(5) by (auto simp: add_warning_def Let_def)
  have n: "n = get_warnings_count (db s) (u_chat upd) v + 1"
    and c1: "get_warnings_count d1 (u_chat upd) v = n"
    using get_warnings_count_add_warning [OF a] by simp_all
  have g: "get_chat_settings d1 (u_chat upd) = Inr row"
    using chat_settings_add_warning [OF a] assms(3) by (simp add: get_chat_settings_def)
  have cl: "\<forall>r \<in> set (warnings (clear_warnings d1 (u_chat upd) v)). \<not> of_user (u_chat upd) v r"
    by (simp add: clear_warnings_def)
  show ?thesis
    using assms(1,2,4) n c1 cl
    by (simp add: warn_command_def a g Let_def finish_def last_call_def
        get_warnings_count_clear_warnings)
qed

lemma warn_command_limit_example:
  "get_warnings_count
     (db (warn_all accept_all [command 2 [] 1] (configured_bot []))) 1 2 + 1 < 3 \<and>
   Ban_member 2 \<notin> set (calls (warn_command accept_all (command 2 [] 2)
      (warn_all accept_all [command 2 [] 1] (configured_bot [])))) \<and>
   get_warnings_count
     (db (warn_all accept_all [command 2 [] 1, command 2 [] 2] (configured_bot []))) 1 2 = 2 \<and>
   take 1 (calls (warn_command accept_all (command 2 [] 3)
      (warn_all accept_all [command 2 [] 1, command 2 [] 2] (configured_bot []))))
     = [Ban_member 2] \<and>
   get_warnings_count
     (db (warn_all accept_all [command 2 [] 1, command 2 [] 2, command 2 [] 3]
            (configured_bot []))) 1 2 = 0"
proof -
  let ?s1 = "warn_all accept_all [command 2 [] 1] (configured_bot [])"
  let ?s2 = "warn_all accept_all [command 2 [] 1, command 2 [] 2] (configured_bot [])"
  let ?s3 = "warn_all accept_all [command 2 [] 1, command 2 [] 2, command 2 [] 3] (configured_bot [])"
  have u2: "u_is_admin (command 2 [] 2)" "u_reply_to (command 2 [] 2) = Some 2"
    and u3: "u_is_admin (command 2 [] 3)" "u_reply_to (command 2 [] 3) = Some 2"
    and ch: "u_chat (command 2 [] 2) = 1" "u_chat (command 2 [] 3) = 1"
    by (simp_all add: command_def)
  have r1: "chat_settings (db ?s1) (u_chat (command 2 [] 2)) = Some (default_row [])"
    and r2: "chat_settings (db ?s2) (u_chat (command 2 [] 3)) = Some (default_row [])"
    by (simp_all add: chat_settings_warn_all configured_bot_def command_def)
  have l: "warn_limit (default_row []) = 3"
    by (simp add: default_row_def)
  have f1: "\<forall>r \<in> set (warnings (db ?s1)).
              \<not> (of_user (u_chat (command 2 [] 2)) 2 r \<and> created_at r = u_now (command 2 [] 2))"
    and f2: "\<forall>r \<in> set (warnings (db ?s2)).
              \<not> (of_user (u_chat (command 2 [] 3)) 2 r \<and> created_at r = u_now (command 2 [] 3))"
    by code_simp+
  have n1: "get_warnings_count (db ?s1) 1 2 = 1" and n2: "get_warnings_count (db ?s2) 1 2 = 2"
    by code_simp+
  have acc: "accept_all (Ban_member 2)"
    by (simp add: accept_all_def)
  have s2: "?s2 = state (warn_command accept_all (command 2 [] 2) ?s1)"
    and s3: "?s3 = state (warn_command accept_all (command 2 [] 3) ?s2)"
    by (simp_all add: warn_all_def)
  from warn_command_limit [OF u2 r1 l f1, of accept_all] n1 ch
  have "Ban_member 2 \<notin> set (calls (warn_command accept_all (command 2 [] 2) ?s1))"
    by simp
  moreover from warn_command_limit [OF u3 r2 l f2, of accept_all] n2 ch acc
  have "take 1 (calls (warn_command accept_all (command 2 [] 3) ?s2)) = [Ban_member 2]"
    and "get_warnings_count (db (state (warn_command accept_all (command 2 [] 3) ?s2))) 1 2 = 0"
    by simp_all
  ultimately show ?thesis
    using n1 n2 s3 by simp
qed

text \<open>
  In a chat without a stored settings row the handler never reaches the comparison
  with the limit: it stores the warning, \<open>get_chat_settings\<close> raises, and no platform
  call is issued. That is the case in every state a process started on a new database
  reaches.
\<close>

lemma warn_command_without_settings:
  assumes "u_is_admin upd" "u_reply_to upd = Some v" "chat_settings (db s) (u_chat upd) = None"
  shows "calls (warn_command ok upd s) = [] \<and> raised (warn_command ok upd s) \<noteq> None"
  using assms
  by (auto simp: warn_command_def crash_def get_chat_settings_def Let_def
      dest: chat_settings_add_warning split: sum.splits)

lemma warn_command_reachable:
  assumes "reachable s" "u_is_admin upd" "u_reply_to upd = Some v"
  shows "calls (warn_command ok upd s) = [] \<and> raised (warn_command ok upd s) \<noteq> None"
  using warn_command_without_settings [OF assms(2,3) reachable_no_settings [OF assms(1)]] .

text \<open>
  Claim C1 says that the warning which brings the count to the limit makes the
  engine ban the user and clear the user's warnings, so that the count is 0. On a new
  database, with every platform call accepted, the third \<open>/warn\<close> against the default
  limit 3 raises \<open>NameError\<close> and issues no platform call; the count is 3 after it
  and 4 after a fourth \<open>/warn\<close>.
\<close>

theorem warn_command_fresh_database:
  "raised (warn_command accept_all (command 2 [] 3)
      (warn_all accept_all [command 2 [] 1, command 2 [] 2] fresh_bot)) = Some NameError \<and>
   calls (warn_command accept_all (command 2 [] 3)
      (warn_all accept_all [command 2 [] 1, command 2 [] 2] fresh_bot)) = [] \<and>
   get_warnings_count
      (db (warn_all accept_all [command 2 [] 1, command 2 [] 2, command 2 [] 3] fresh_bot)) 1 2 = 3 \<and>
   get_warnings_count
      (db (warn_all accept_all [command 2 [] 1, command 2 [] 2, command 2 [] 3, command 2 [] 4]
             fresh_bot)) 1 2 = 4"
  by code_simp

text \<open>
  When the platform rejects the ban, the \<open>except\<close> branch reports the error and the
  warnings stay: the third \<open>/warn\<close> against the limit 3 leaves the count at 3.
\<close>

lemma warn_command_ban_rejected:
  "calls (warn_command (reject (Ban_member 2)) (command 2 [] 3)
      (warn_all accept_all [command 2 [] 1, command 2 [] 2] (configured_bot [])))
     = [Ban_member 2, Reply_text Ban_error] \<and>
   raised (warn_command (reject (Ban_member 2)) (command 2 [] 3)
      (warn_all accept_all [command 2 [] 1, command 2 [] 2] (configured_bot []))) = None \<and>
   get_warnings_count (db (state (warn_command (reject (Ban_member 2)) (command 2 [] 3)
      (warn_all accept_all [command 2 [] 1, command 2 [] 2] (configured_bot []))))) 1 2 = 3"
  by code_simp

subsection \<open>The word filter\<close>

text \<open>
  Claim C2 says that a warning of the word filter that reaches the limit takes the
  same ban-and-reset path as \<open>/warn\<close>. In a chat with a settings row, limit 3 and the
  banned word \<open>spam\<close>, the third offending message, one minute after the second,
  makes the handler ban the user, but the three warnings stay stored, and removing a
  warning afterwards returns 2, not 0.
\<close>

theorem word_filter_ban_keeps_warnings:
  "calls (handle_messages accept_all (message 2 ''Spam'' 120)
      (handle_all accept_all [message 2 ''spam'' 0, message 2 ''more SPAM'' 60]
         (configured_bot [''spam'']))) =
     [Delete_message, Send_message (Bad_word_notice 3 3), Ban_member 2,
      Send_message Limit_ban_notice] \<and>
   get_warnings_count (db (handle_all accept_all
      [message 2 ''spam'' 0, message 2 ''more SPAM'' 60, message 2 ''Spam'' 120]
      (configured_bot [''spam'']))) 1 2 = 3 \<and>
   snd (remove_warning (db (handle_all accept_all
      [message 2 ''spam'' 0, message 2 ''more SPAM'' 60, message 2 ''Spam'' 120]
      (configured_bot [''spam'']))) 1 2) = 2"
  by code_simp

subsection \<open>Flood detection\<close>

lemma muted_users_add_warning:
  "add_warning d c u b why now = Inr (d', n) \<Longrightarrow> muted_users d' = muted_users d"
  by (auto simp: add_warning_def Let_def split: if_splits)

lemma word_filter_no_mute:
  "muted_users (db (state (word_filter ok upd txt row s))) = muted_users (db s) \<and>
   flood_cache (state (word_filter ok upd txt row s)) = flood_cache s \<and>
   (\<forall>v p t. Restrict_member v p t \<notin> set (calls (word_filter ok upd txt row s)))"
  by (auto simp: word_filter_def finish_def Let_def dest: muted_users_add_warning
      split: option.splits sum.splits)

lemma flood_action_mute:
  assumes "ok Delete_message" "0 \<le> u_now upd" "u_now upd + 300000000 \<le> datetime_max"
    and "ok (Restrict_member (u_user upd) No_send_messages (u_now upd + 300000000))"
  shows "calls (flood_action ok upd s) =
           [Delete_message, Restrict_member (u_user upd) No_send_messages (u_now upd + 300000000),
            Send_message Flood_notice] \<and>
         muted_users (db (state (flood_action ok upd s))) (u_chat upd, u_user upd)
           = Some (u_now upd + 300000000)"
  using assms
  by (simp add: flood_action_def add_seconds_def add_mute_def finish_def Let_def)

lemma is_muted_False:
  "\<not> snd (is_muted d c u now) \<Longrightarrow>
   \<exists>d1. is_muted d c u now = (d1, False) \<and> muted_users d1 (c, u) = None \<and>
        chat_settings d1 = chat_settings d"
  by (auto simp: is_muted_def remove_mute_def split: option.splits if_splits)

lemma handle_messages_antiflood:
  assumes "u_text upd \<noteq> None" "u_text upd \<noteq> Some []"
    and "\<not> snd (is_muted (db s) (u_chat upd) (u_user upd) (u_now upd))"
    and "chat_settings (db s) (u_chat upd) = Some row" "antiflood_enabled row"
  shows "flood_cache (state (handle_messages ok upd s)) (u_chat upd, u_user upd)
           = Some (u_mono upd + 60000000, flood_window upd row s) \<and>
         (int (length (flood_window upd row s)) \<le> antiflood_count row \<longrightarrow>
            (\<forall>v p t. Restrict_member v p t \<notin> set (calls (handle_messages ok upd s))) \<and>
            muted_users (db (state (handle_messages ok upd s))) (u_chat upd, u_user upd) = None) \<and>
         (antiflood_count row < int (length (flood_window upd row s)) \<and>
          ok Delete_message \<and> 0 \<le> u_now upd \<and> u_now upd + 300000000 \<le> datetime_max \<and>
          ok (Restrict_member (u_user upd) No_send_messages (u_now upd + 300000000)) \<longrightarrow>
            calls (handle_messages ok upd s) =
              [Delete_message,
               Restrict_member (u_user upd) No_send_messages (u_now upd + 300000000),
               Send_message Flood_notice] \<and>
            muted_users (db (state (handle_messages ok upd s))) (u_chat upd, u_user upd)
              = Some (u_now upd + 300000000))"
proof -
  obtain body where t: "u_text upd = Some body" "body \<noteq> []"
    using assms(1,2) by (cases "u_text upd") auto
  obtain d1 where im: "is_muted (db s) (u_chat upd) (u_user upd) (u_now upd) = (d1, False)"
    and m1: "muted_users d1 (u_chat upd, u_user upd) = None"
    and c1: "chat_settings d1 = chat_settings (db s)"
    using is_muted_False [OF assms(3)] by blast
  let ?d2 = "update_user_stats d1 (u_chat upd) (u_user upd) (u_now upd)"
  have g: "get_chat_settings ?d2 (u_chat upd) = Inr row"
    using assms(4) c1 by (simp add: get_chat_settings_def update_user_stats_def)
  have w: "flood_window upd row (s\<lparr>db := ?d2\<rparr>) = flood_window upd row s"
    by (simp add: flood_window_def)
  have fc: "flood_cache (state (flood_action ok upd s')) = flood_cache s'" for s'
    by (simp add: flood_action_def finish_def Let_def split: sum.splits)
  have m2: "muted_users ?d2 = muted_users d1"
    by (simp add: update_user_stats_def)
  have fa: "ok Delete_message \<and> 0 \<le> u_now upd \<and> u_now upd + 300000000 \<le> datetime_max \<and>
          ok (Restrict_member (u_user upd) No_send_messages (u_now upd + 300000000)) \<Longrightarrow>
          calls (flood_action ok upd s') =
              [Delete_message,
               Restrict_member (u_user upd) No_send_messages (u_now upd + 300000000),
               Send_message Flood_notice] \<and>
          muted_users (db (state (flood_action ok upd s'))) (u_chat upd, u_user upd)
              = Some (u_now upd + 300000000)" for s'
    using flood_action_mute [of ok upd s'] by simp
  show ?thesis
    using t assms(5) m1 m2 fa
    by (simp add: handle_messages_def im g w fc Let_def word_filter_no_mute)
qed

lemma handle_all_snoc:
  "handle_all ok (upds @ [e]) s = state (handle_messages ok e (handle_all ok upds s))"
  by (simp add: handle_all_def)

lemma handle_all_take_Suc:
  "k < length upds \<Longrightarrow>
   handle_all ok (take (Suc k) upds) s
     = state (handle_messages ok (upds ! k) (handle_all ok (take k upds) s))"
  by (simp add: take_Suc_conv_app_nth handle_all_snoc)

lemma burst_window:
  assumes run: "same_sender c u upds" "within_seconds (antiflood_seconds row) upds"
    and row: "chat_settings (db s) c = Some row" "antiflood_enabled row"
    and first: "upds \<noteq> []" "\<not> snd (is_muted (db s) c u (u_now (hd upds)))"
      "flood_window (hd upds) row s = [u_now (hd upds)]"
    and k: "k < length upds" "int k \<le> antiflood_count row"
  shows "flood_window (upds ! k) row (handle_all ok (take k upds) s)
           = map u_now (take (Suc k) upds) \<and>
         \<not> snd (is_muted (db (handle_all ok (take k upds) s)) c u (u_now (upds ! k))) \<and>
         chat_settings (db (handle_all ok (take k upds) s)) c = Some row"
  using k
proof (induction k)
  case 0
  have "take (Suc 0) upds = [hd upds]" and "upds ! 0 = hd upds"
    using first(1) by (cases upds; simp)+
  then show ?case
    using first row by (simp add: handle_all_def)
next
  case (Suc k)
  let ?s = "handle_all ok (take k upds) s" and ?e = "upds ! k" and ?e' = "upds ! Suc k"
  have klt: "k < length upds" and kle: "int k \<le> antiflood_count row"
    using Suc.prems by simp_all
  note IH = Suc.IH [OF klt kle]
  have mem: "?e \<in> set upds" "?e' \<in> set upds"
    using Suc.prems klt by simp_all
  have e: "u_chat ?e = c" "u_user ?e = u" "u_text ?e \<noteq> None" "u_text ?e \<noteq> Some []"
    and e': "u_chat ?e' = c" "u_user ?e' = u"
    using run(1) mem by (simp_all add: same_sender_def)
  have len: "int (length (flood_window ?e row ?s)) \<le> antiflood_count row"
    using IH klt Suc.prems by simp
  have step: "handle_all ok (take (Suc k) upds) s = state (handle_messages ok ?e ?s)"
    using klt by (rule handle_all_take_Suc)
  from handle_messages_antiflood [of ?e ?s row ok] e IH len row(2)
  have cache: "flood_cache (state (handle_messages ok ?e ?s)) (c, u)
                 = Some (u_mono ?e + 60000000, map u_now (take (Suc k) upds))"
    and quiet: "muted_users (db (state (handle_messages ok ?e ?s))) (c, u) = None"
    by simp_all
  have live: "u_mono ?e' < u_mono ?e + 60000000"
    using run(2) mem by (simp add: within_seconds_def)
  have near: "\<forall>t \<in> set (map u_now (take (Suc k) upds) @ [u_now ?e']).
                u_now ?e' - t \<le> antiflood_seconds row * 1000000"
  proof
    fix t assume "t \<in> set (map u_now (take (Suc k) upds) @ [u_now ?e'])"
    then obtain x where "x \<in> set upds" "t = u_now x"
      using mem(2) by (auto dest: in_set_takeD)
    then show "u_now ?e' - t \<le> antiflood_seconds row * 1000000"
      using run(2) mem(2) by (simp add: within_seconds_def)
  qed
  have "flood_window ?e' row (state (handle_messages ok ?e ?s))
          = map u_now (take (Suc k) upds) @ [u_now ?e']"
    using cache live near e' by (simp add: flood_window_def filter_id_conv)
  also have "\<dots> = map u_now (take (Suc (Suc k)) upds)"
    using Suc.prems by (simp add: take_Suc_conv_app_nth [of "Suc k"])
  finally have w: "flood_window ?e' row (handle_all ok (take (Suc k) upds) s)
                     = map u_now (take (Suc (Suc k)) upds)"
    by (simp add: step)
  have m: "\<not> snd (is_muted (db (handle_all ok (take (Suc k) upds) s)) c u (u_now ?e'))"
    using quiet by (simp add: step is_muted_def)
  have cs: "chat_settings (db (handle_all ok (take (Suc k) upds) s)) c = Some row"
    using row(1) by (simp add: chat_settings_handle_all)
  from w m cs show ?case by simp
qed

text \<open>
  The design of the handler, in a chat that has a stored settings row with antiflood
  enabled, count 5 and 10 seconds: let a user who is not muted and has no earlier
  message left in the flood window send six text messages, all within 10 seconds.
  Handling each of the first five issues no restriction and records no mute. Handling
  the sixth, when the platform accepts the calls, issues the deletion of that message,
  one restriction until 300 seconds later and the flood notice, and records a mute
  that expires 300 seconds after the sixth message; no setting enters that duration.
\<close>

lemma flood_on_sixth_message:
  assumes run: "length upds = 6" "same_sender c u upds" "within_seconds 10 upds"
    and row: "chat_settings (db s) c = Some row" "antiflood_enabled row"
      "antiflood_count row = 5" "antiflood_seconds row = 10"
    and first: "\<not> snd (is_muted (db s) c u (u_now (hd upds)))"
      "flood_window (hd upds) row s = [u_now (hd upds)]"
    and sixth: "ok Delete_message" "0 \<le> u_now (upds ! 5)"
      "u_now (upds ! 5) + 300000000 \<le> datetime_max"
      "ok (Restrict_member u No_send_messages (u_now (upds ! 5) + 300000000))"
  shows "(\<forall>k < 5.
            (\<forall>v p t. Restrict_member v p t
               \<notin> set (calls (handle_messages ok (upds ! k) (handle_all ok (take k upds) s)))) \<and>
            muted_users (db (handle_all ok (take (Suc k) upds) s)) (c, u) = None) \<and>
         calls (handle_messages ok (upds ! 5) (handle_all ok (take 5 upds) s)) =
           [Delete_message, Restrict_member u No_send_messages (u_now (upds ! 5) + 300000000),
            Send_message Flood_notice] \<and>
         muted_users (db (handle_all ok upds s)) (c, u) = Some (u_now (upds ! 5) + 300000000)"
proof -
  have ne: "upds \<noteq> []"
    using run(1) by auto
  have ws: "within_seconds (antiflood_seconds row) upds"
    using run(3) row(4) by simp
  have inv: "flood_window (upds ! k) row (handle_all ok (take k upds) s)
               = map u_now (take (Suc k) upds) \<and>
             \<not> snd (is_muted (db (handle_all ok (take k upds) s)) c u (u_now (upds ! k))) \<and>
             chat_settings (db (handle_all ok (take k upds) s)) c = Some row"
    if "k < 6" for k
    using burst_window [OF run(2) ws row(1,2) ne first, of k ok] that run(1) row(3) by simp
  have ev: "u_chat (upds ! k) = c \<and> u_user (upds ! k) = u \<and>
            u_text (upds ! k) \<noteq> None \<and> u_text (upds ! k) \<noteq> Some []"
    if "k < 6" for k
    using run(1,2) that by (simp add: same_sender_def)
  have len: "length (flood_window (upds ! k) row (handle_all ok (take k upds) s)) = Suc k"
    if "k < 6" for k
    using inv [OF that] that run(1) by simp
  have quiet: "(\<forall>v p t. Restrict_member v p t
               \<notin> set (calls (handle_messages ok (upds ! k) (handle_all ok (take k upds) s)))) \<and>
            muted_users (db (handle_all ok (take (Suc k) upds) s)) (c, u) = None"
    if "k < 5" for k
  proof -
    have k6: "k < 6" using that by simp
    have "int (length (flood_window (upds ! k) row (handle_all ok (take k upds) s)))
            \<le> antiflood_count row"
      using len [OF k6] that row(3) by simp
    with handle_messages_antiflood [of "upds ! k" "handle_all ok (take k upds) s" row ok]
      ev [OF k6] inv [OF k6] row(2)
    have "(\<forall>v p t. Restrict_member v p t
               \<notin> set (calls (handle_messages ok (upds ! k) (handle_all ok (take k upds) s)))) \<and>
          muted_users (db (state (handle_messages ok (upds ! k) (handle_all ok (take k upds) s))))
            (c, u) = None"
      by simp
    then show ?thesis
      using handle_all_take_Suc [of k upds ok s] k6 run(1) by simp
  qed
  have "antiflood_count row
          < int (length (flood_window (upds ! 5) row (handle_all ok (take 5 upds) s)))"
    using len [of 5] row(3) by simp
  with handle_messages_antiflood [of "upds ! 5" "handle_all ok (take 5 upds) s" row ok]
    ev [of 5] inv [of 5] row(2) sixth
  have last: "calls (handle_messages ok (upds ! 5) (handle_all ok (take 5 upds) s)) =
           [Delete_message, Restrict_member u No_send_messages (u_now (upds ! 5) + 300000000),
            Send_message Flood_notice] \<and>
         muted_users (db (state (handle_messages ok (upds ! 5) (handle_all ok (take 5 upds) s))))
            (c, u) = Some (u_now (upds ! 5) + 300000000)"
    by simp
  have "handle_all ok upds s = state (handle_messages ok (upds ! 5) (handle_all ok (take 5 upds) s))"
    using handle_all_take_Suc [of 5 upds ok s] run(1) by simp
  with last quiet show ?thesis by simp
qed

lemma flood_on_sixth_message_example:
  "calls (handle_messages accept_all (message 2 ''hi'' 5)
      (handle_all accept_all (map (message 2 ''hi'') [0, 1, 2, 3, 4]) (configured_bot []))) =
     [Delete_message, Restrict_member 2 No_send_messages 305000000, Send_message Flood_notice] \<and>
   muted_users (db (handle_all accept_all (map (message 2 ''hi'') [0, 1, 2, 3, 4, 5])
      (configured_bot []))) (1, 2) = Some 305000000 \<and>
   muted_users (db (handle_all accept_all (map (message 2 ''hi'') [0, 1, 2, 3, 4])
      (configured_bot []))) (1, 2) = None"
proof -
  let ?upds = "map (message 2 ''hi'') [0, 1, 2, 3, 4, 5]" and ?s = "configured_bot []"
  have run: "length ?upds = 6" "same_sender 1 2 ?upds" "within_seconds 10 ?upds"
    by (simp_all add: same_sender_def within_seconds_def message_def)
  have row: "chat_settings (db ?s) 1 = Some (default_row [])" "antiflood_enabled (default_row [])"
    "antiflood_count (default_row []) = 5" "antiflood_seconds (default_row []) = 10"
    by (simp_all add: configured_bot_def default_row_def)
  have first: "\<not> snd (is_muted (db ?s) 1 2 (u_now (hd ?upds)))"
    "flood_window (hd ?upds) (default_row []) ?s = [u_now (hd ?upds)]"
    by (simp_all add: configured_bot_def empty_db_def is_muted_def flood_window_def
        default_row_def message_def)
  have sixth: "accept_all Delete_message" "0 \<le> u_now (?upds ! 5)"
    "u_now (?upds ! 5) + 300000000 \<le> datetime_max"
    "accept_all (Restrict_member 2 No_send_messages (u_now (?upds ! 5) + 300000000))"
    by (simp_all add: accept_all_def message_def datetime_max_def)
  have four: "(4::nat) < 5" by simp
  from flood_on_sixth_message [OF run row first sixth]
  have "calls (handle_messages accept_all (?upds ! 5) (handle_all accept_all (take 5 ?upds) ?s)) =
           [Delete_message, Restrict_member 2 No_send_messages (u_now (?upds ! 5) + 300000000),
            Send_message Flood_notice]"
    and "muted_users (db (handle_all accept_all ?upds ?s)) (1, 2)
           = Some (u_now (?upds ! 5) + 300000000)"
    and "muted_users (db (handle_all accept_all (take (Suc 4) ?upds) ?s)) (1, 2) = None"
    using four by blast+
  then show ?thesis
    by (simp add: message_def)
qed

text \<open>
  In a chat without a stored settings row the handler never reaches the flood window:
  \<open>get_chat_settings\<close> raises right after the statistics are updated. That is the
  case in every state a process started on a new database reaches.
\<close>

lemma handle_messages_without_settings:
  assumes "u_text upd = Some txt" "txt \<noteq> []"
    and "chat_settings (db s) (u_chat upd) = None"
    and "\<not> snd (is_muted (db s) (u_chat upd) (u_user upd) (u_now upd))"
  shows "raised (handle_messages ok upd s) = Some NameError \<and>
         calls (handle_messages ok upd s) = [] \<and>
         flood_cache (state (handle_messages ok upd s)) = flood_cache s \<and>
         warnings (db (state (handle_messages ok upd s))) = warnings (db s)"
proof -
  obtain d1 where im: "is_muted (db s) (u_chat upd) (u_user upd) (u_now upd) = (d1, False)"
    using assms(4) by (cases "is_muted (db s) (u_chat upd) (u_user upd) (u_now upd)") auto
  have d1: "chat_settings d1 = chat_settings (db s)" "warnings d1 = warnings (db s)"
    using im by (auto simp: is_muted_def remove_mute_def split: option.splits if_splits)
  show ?thesis
    using assms(1-3) d1
    by (simp add: handle_messages_def im get_chat_settings_def update_user_stats_def crash_def
        Let_def)
qed

lemma handle_messages_reachable:
  assumes "reachable s" "u_text upd = Some body" "body \<noteq> []"
    and "\<not> snd (is_muted (db s) (u_chat upd) (u_user upd) (u_now upd))"
  shows "raised (handle_messages ok upd s) = Some NameError \<and>
         calls (handle_messages ok upd s) = [] \<and>
         flood_cache (state (handle_messages ok upd s)) = flood_cache s"
  using handle_messages_without_settings
    [OF assms(2,3) reachable_no_settings [OF assms(1)] assms(4), of ok] by simp

text \<open>
  Claim C3 says that, with antiflood enabled, count 5 and 10 seconds, the sixth of
  six messages of one sender within ten seconds triggers the flood action, which
  deletes the message and records a mute of 300 seconds. On a new database, with every
  platform call accepted, the sixth of six messages sent one second apart raises
  \<open>NameError\<close> and issues no platform call; no mute is recorded and the flood cache
  stays empty.
\<close>

theorem flood_fresh_database:
  "raised (handle_messages accept_all (message 2 ''hi'' 5)
      (handle_all accept_all (map (message 2 ''hi'') [0, 1, 2, 3, 4]) fresh_bot))
     = Some NameError \<and>
   calls (handle_messages accept_all (message 2 ''hi'' 5)
      (handle_all accept_all (map (message 2 ''hi'') [0, 1, 2, 3, 4]) fresh_bot)) = [] \<and>
   muted_users (db (handle_all accept_all (map (message 2 ''hi'') [0, 1, 2, 3, 4, 5]) fresh_bot))
      (1, 2) = None \<and>
   flood_cache (handle_all accept_all (map (message 2 ''hi'') [0, 1, 2, 3, 4, 5]) fresh_bot)
      (1, 2) = None"
  by code_simp

text \<open>
  When the platform rejects the deletion of the sixth message, the \<open>except\<close> branch
  swallows the error before the restriction: no mute is recorded.
\<close>

lemma flood_delete_rejected:
  "calls (handle_messages (reject Delete_message) (message 2 ''hi'' 5)
      (handle_all accept_all (map (message 2 ''hi'') [0, 1, 2, 3, 4]) (configured_bot [])))
     = [Delete_message] \<and>
   muted_users (db (state (handle_messages (reject Delete_message) (message 2 ''hi'' 5)
      (handle_all accept_all (map (message 2 ''hi'') [0, 1, 2, 3, 4]) (configured_bot [])))))
     (1, 2) = None"
  by code_simp

end
